theory Spec2Isabelle
  imports Main "HOL-Library.Multiset"
begin

section \<open>C strings and the libc functions the program calls\<close>

text \<open>
  A \<open>char *\<close> is modelled by the bytes found in memory from the pointer onwards
  (\<open>cbuf\<close>). The C string it denotes is the part before the first NUL byte
  (\<open>cstr\<close>); bytes after the terminator may be stale and are kept in the model,
  since \<open>memcmp\<close> does not stop at a terminator.
\<close>

type_synonym cbuf = "char list"

definition NUL :: char where
  "NUL = CHR 0x00"

definition cstr :: "cbuf \<Rightarrow> string" where
  "cstr b = takeWhile (\<lambda>c. c \<noteq> NUL) b"

definition to_cbuf :: "string \<Rightarrow> cbuf" where
  "to_cbuf s = s @ [NUL]"

text \<open>
  \<open>strchr(s, c)\<close> for a character \<open>c\<close> other than NUL: the offset of the first
  occurrence of \<open>c\<close> in the string, \<open>None\<close> for the NULL pointer.
\<close>

definition strchr :: "cbuf \<Rightarrow> char \<Rightarrow> nat option" where
  "strchr s c =
     (if c \<in> set (cstr s) then Some (length (takeWhile (\<lambda>x. x \<noteq> c) (cstr s))) else None)"

text \<open>Byte-wise comparison of two byte sequences, with the sign \<open>strcmp\<close> and
  \<open>memcmp\<close> return (bytes compared as unsigned char).\<close>

fun bytes_cmp :: "char list \<Rightarrow> char list \<Rightarrow> int" where
  "bytes_cmp [] [] = 0"
| "bytes_cmp [] (b # bs) = - 1"
| "bytes_cmp (a # as) [] = 1"
| "bytes_cmp (a # as) (b # bs) =
     (if a = b then bytes_cmp as bs else (of_char a :: int) - of_char b)"

definition strcmp :: "cbuf \<Rightarrow> cbuf \<Rightarrow> int" where
  "strcmp a b = bytes_cmp (cstr a) (cstr b)"

definition memcmp :: "cbuf \<Rightarrow> cbuf \<Rightarrow> nat \<Rightarrow> int" where
  "memcmp a b n = bytes_cmp (take n a) (take n b)"

section \<open>The context matcher\<close>

definition PrvIsWildcardContextName :: "cbuf \<Rightarrow> bool" where
  "PrvIsWildcardContextName matchContextName =
     (if strchr matchContextName (CHR ''*'') \<noteq> None then True else False)"

definition PrvMatchContextName :: "cbuf \<Rightarrow> cbuf option \<Rightarrow> bool" where
  "PrvMatchContextName contextName matchContextName =
     (case matchContextName of
        None \<Rightarrow> True
      | Some m \<Rightarrow>
          (case strchr m (CHR ''*'') of
             None \<Rightarrow> (if strcmp contextName m = 0 then True else False)
           | Some matchPrefixLen \<Rightarrow>
               (if matchPrefixLen = 0 then True
                else if memcmp contextName m matchPrefixLen = 0 then True
                else False)))"

text \<open>The reference definition of the specification (section 4.1), on strings.\<close>

fun first_index :: "'a \<Rightarrow> 'a list \<Rightarrow> nat" where
  "first_index c [] = 0"
| "first_index c (x # xs) = (if x = c then 0 else Suc (first_index c xs))"

definition Matches :: "string \<Rightarrow> string option \<Rightarrow> bool" where
  "Matches candidateName pattern =
     (case pattern of
        None \<Rightarrow> True
      | Some p \<Rightarrow>
          if CHR ''*'' \<in> set p
          then take (first_index (CHR ''*'') p) candidateName = take (first_index (CHR ''*'') p) p
          else candidateName = p)"

section \<open>The program's environment: PmLogLib and libc\<close>

text \<open>
  \<open>PmLogLib.h\<close> is not part of this repository. Its error codes are modelled by the
  two the program names and a constructor for every other code; a context handle
  (\<open>PmLogContext\<close>, a pointer) is \<open>None\<close> for NULL.
\<close>

datatype PmLogErr = kPmLogErr_None | kPmLogErr_Unknown | kPmLogErr_Other nat

type_synonym PmLogContext = "nat option"

text \<open>The levels of \<open>PmLogLib.h\<close> follow the syslog numbering, with -1 for "none".\<close>

definition kPmLogLevel_Emergency :: int where
  "kPmLogLevel_Emergency = 0"

definition kPmLogLevel_Notice :: int where
  "kPmLogLevel_Notice = 5"

definition kPmLogLevel_Debug :: int where
  "kPmLogLevel_Debug = 7"

definition kPmLogGlobalContextName :: string where
  "kPmLogGlobalContextName = ''<global>''"

datatype Result = RESULT_OK | RESULT_PARAM_ERR | RESULT_RUN_ERR | RESULT_HELP

text \<open>
  What a run of the program does to the outside, in order: the lines it writes to
  stdout and stderr, and the library calls that change or emit something.
\<close>

datatype event =
    Stdout string
  | Stderr string
  | Call_PmLogSetContextLevel PmLogContext int
  | Call_PmLogGetContext string
  | Call_PmLogPrint PmLogContext int string
  | Call_PmLogString PmLogContext int "string option" "string option" "string option"
  | Call_PmLogInfo PmLogContext string string
  | Write_kmsg string

text \<open>Undefined behaviour the C code can reach; nothing is claimed about a run after it.\<close>

datatype crash = StackBufferOverflow | NullPointerDereference

text \<open>The field \<open>context\<close> of the C struct is \<open>context_ptr\<close> here (\<open>context\<close> is a keyword).\<close>

record ContextInfo_t =
  context_ptr :: PmLogContext
  contextName :: string

record ContextsInfo_t =
  numContexts :: int
  contextInfos :: "ContextInfo_t list"

text \<open>
  The environment of one run. The library functions are given by their results (the
  error code first, the value written through the out-parameter second);
  \<open>PmLogStringToLevel\<close> and \<open>PmLogLevelToString\<close> return \<open>None\<close> for NULL.
  \<open>fmt_PmLogErr e\<close> is the text that \<open>printf\<close> writes for \<open>0x%08X (%s)\<close> with
  \<open>e\<close> and \<open>PmLogGetErrDbgString(e)\<close>. \<open>qsort\<close> is libc's, applied to the first
  \<open>nmemb\<close> elements of the array with the given comparison function.
  \<open>malloc_ok\<close> tells whether \<open>malloc\<close> of a \<open>ContextsInfo_t\<close> succeeds;
  \<open>fopen_kmsg\<close> and \<open>fprintf_kmsg\<close> give \<open>strerror(errno)\<close> when opening or
  writing \<open>/dev/kmsg\<close> fails. \<open>DoCmdView\<close> is declared in \<open>PmLogCtl.h\<close>; its
  file is not part of the sources at hand, so it is a parameter.
\<close>

record env =
  PMLOG_MAX_NUM_CONTEXTS :: nat
  PmLogGetNumContexts :: "PmLogErr \<times> int"
  PmLogGetIndContext :: "int \<Rightarrow> PmLogErr \<times> PmLogContext"
  PmLogGetContextName :: "PmLogContext \<Rightarrow> PmLogErr \<times> string"
  PmLogFindContext :: "string \<Rightarrow> PmLogErr \<times> PmLogContext"
  PmLogGetContext :: "string \<Rightarrow> PmLogErr \<times> PmLogContext"
  PmLogSetContextLevel :: "PmLogContext \<Rightarrow> int \<Rightarrow> PmLogErr"
  PmLogStringToLevel :: "string \<Rightarrow> int option"
  PmLogLevelToString :: "int \<Rightarrow> string option"
  PmLogPrint :: "PmLogContext \<Rightarrow> int \<Rightarrow> string \<Rightarrow> PmLogErr"
  PmLogString :: "PmLogContext \<Rightarrow> int \<Rightarrow> string option \<Rightarrow> string option \<Rightarrow> string option \<Rightarrow> PmLogErr"
  PmLogInfo :: "PmLogContext \<Rightarrow> string \<Rightarrow> string \<Rightarrow> PmLogErr"
  enabledLevel :: "nat \<Rightarrow> int"
  kPmLogGlobalContext :: PmLogContext
  fmt_PmLogErr :: "PmLogErr \<Rightarrow> string"
  qsort :: "(ContextInfo_t \<Rightarrow> ContextInfo_t \<Rightarrow> int) \<Rightarrow> ContextInfo_t list \<Rightarrow> ContextInfo_t list"
  malloc_ok :: bool
  fopen_kmsg :: "string option"
  fprintf_kmsg :: "string \<Rightarrow> string option"
  DoCmdView :: "bool \<Rightarrow> string list \<Rightarrow> Result \<times> event list"

section \<open>Printing (PmLogCtl.h)\<close>

definition COMPONENT_PREFIX :: string where
  "COMPONENT_PREFIX = ''PmLogCtl: ''"

text \<open>Both macros test the global \<open>flag_silence\<close>, passed here as the first argument.\<close>

definition InfoPrint :: "bool \<Rightarrow> string \<Rightarrow> event list" where
  "InfoPrint flag_silence s = (if \<not> flag_silence then [Stdout (COMPONENT_PREFIX @ s)] else [])"

definition ErrPrint :: "bool \<Rightarrow> string \<Rightarrow> event list" where
  "ErrPrint flag_silence s = (if \<not> flag_silence then [Stderr (COMPONENT_PREFIX @ s)] else [])"

definition quoted :: "string \<Rightarrow> string" where
  "quoted s = CHR 0x27 # s @ [CHR 0x27]"

definition SuggestHelp :: "bool \<Rightarrow> event list" where
  "SuggestHelp flag_silence = ErrPrint flag_silence ''Use -help for usage information.\<newline>''"

section \<open>The context lister\<close>

text \<open>\<open>strcasecmp\<close> in the C locale: bytes compared after folding A-Z to a-z.\<close>

definition c_tolower :: "char \<Rightarrow> char" where
  "c_tolower c = (let n = of_char c :: nat in if 65 \<le> n \<and> n \<le> 90 then char_of (n + 32) else c)"

definition strcasecmp :: "cbuf \<Rightarrow> cbuf \<Rightarrow> int" where
  "strcasecmp a b = bytes_cmp (map c_tolower (cstr a)) (map c_tolower (cstr b))"

definition SortCmpContextInfoByName :: "ContextInfo_t \<Rightarrow> ContextInfo_t \<Rightarrow> int" where
  "SortCmpContextInfoByName context1P context2P =
     strcasecmp (to_cbuf (contextName context1P)) (to_cbuf (contextName context2P))"

text \<open>
  The loop of \<open>PrvGetContextList\<close>, from index \<open>i\<close> on. Each entry is fetched into
  the slot \<open>contextInfos[numContexts]\<close>; the slot is kept (the count goes up) only when
  the name matches. The matcher is given the fetched name with its terminator: by
  \<open>PrvMatchContextName_Matches\<close> stale bytes behind the terminator do not matter.
\<close>

function PrvGetContextList_loop ::
  "env \<Rightarrow> cbuf option \<Rightarrow> int \<Rightarrow> int \<Rightarrow> ContextsInfo_t \<Rightarrow> PmLogErr + ContextsInfo_t" where
  "PrvGetContextList_loop env matchContextName n i contextInfosP =
     (if i < n then
        (if numContexts contextInfosP \<ge> 0
            \<and> numContexts contextInfosP < int (PMLOG_MAX_NUM_CONTEXTS env) + 1
         then
           (case PmLogGetIndContext env i of (logErr, c) \<Rightarrow>
              if logErr \<noteq> kPmLogErr_None then Inl logErr
              else
                (case PmLogGetContextName env c of (logErr, nm) \<Rightarrow>
                   if logErr \<noteq> kPmLogErr_None then Inl logErr
                   else
                     let contextInfosP = contextInfosP
                           \<lparr>contextInfos := (contextInfos contextInfosP)
                              [nat (numContexts contextInfosP) := \<lparr>context_ptr = c, contextName = nm\<rparr>]\<rparr>
                     in
                       if \<not> PrvMatchContextName (to_cbuf nm) matchContextName
                       then PrvGetContextList_loop env matchContextName n (i + 1) contextInfosP
                       else if numContexts contextInfosP \<ge> int (PMLOG_MAX_NUM_CONTEXTS env) + 1
                       then Inl kPmLogErr_Unknown
                       else PrvGetContextList_loop env matchContextName n (i + 1)
                              (contextInfosP\<lparr>numContexts := numContexts contextInfosP + 1\<rparr>)))
         else Inl kPmLogErr_Unknown)
      else Inr contextInfosP)"
  by pat_completeness auto
termination
  by (relation "measure (\<lambda>(env, m, n, i, cs). nat (n - i))") auto

declare PrvGetContextList_loop.simps [simp del]

definition PrvGetContextList :: "env \<Rightarrow> cbuf option \<Rightarrow> PmLogErr + ContextsInfo_t" where
  "PrvGetContextList env matchContextName =
     (let contextInfosP = \<lparr>numContexts = 0,
            contextInfos = replicate (PMLOG_MAX_NUM_CONTEXTS env + 1) \<lparr>context_ptr = None, contextName = []\<rparr>\<rparr>
      in
        (case PmLogGetNumContexts env of (logErr, n) \<Rightarrow>
           if logErr \<noteq> kPmLogErr_None then Inl logErr
           else if n \<le> 0 then Inl kPmLogErr_Unknown
           else
             (case PrvGetContextList_loop env matchContextName n 0 contextInfosP of
                Inl logErr \<Rightarrow> Inl logErr
              | Inr contextInfosP \<Rightarrow>
                  if numContexts contextInfosP > 0
                  then Inr (contextInfosP
                         \<lparr>contextInfos :=
                            qsort env SortCmpContextInfoByName
                              (take (nat (numContexts contextInfosP)) (contextInfos contextInfosP))
                            @ drop (nat (numContexts contextInfosP)) (contextInfos contextInfosP)\<rparr>)
                  else Inr contextInfosP)))"

text \<open>The parameter \<open>contextName\<close> is primed: the name is taken by the struct field.\<close>

definition PrvResolveContextNameAlias :: "string \<Rightarrow> string" where
  "PrvResolveContextNameAlias contextName' =
     (if strcmp (to_cbuf contextName') (to_cbuf ''.'') = 0 then kPmLogGlobalContextName
      else contextName')"

section \<open>The commands \<open>show\<close> and \<open>set\<close>\<close>

text \<open>
  A command is given \<open>argv\<close> as the list of its \<open>argc\<close> strings (\<open>argv[0]\<close> is the
  command word) and the value of \<open>flag_silence\<close>; it returns its \<open>Result\<close> and the
  events it caused. An argument loop \<open>while (i < argc) { arg = argv[i]; ...; i++; }\<close>
  that consumes one argument per iteration is a recursion over the arguments left; a
  \<open>return\<close> inside the loop is the left summand.
\<close>

definition ShowContext :: "env \<Rightarrow> bool \<Rightarrow> ContextInfo_t \<Rightarrow> crash + event list" where
  "ShowContext env flag_silence contextInfoP =
     (case context_ptr contextInfoP of
        None \<Rightarrow> Inl NullPointerDereference
      | Some c \<Rightarrow>
          let levelStr =
                (case PmLogLevelToString env (enabledLevel env c) of
                   None \<Rightarrow> ''Unknown''
                 | Some s \<Rightarrow> s)
          in Inr (InfoPrint flag_silence
                    (''Context '' @ quoted (contextName contextInfoP) @ '' = '' @ levelStr
                       @ ''\<newline>'')))"

fun DoCmdShow_loop :: "env \<Rightarrow> bool \<Rightarrow> ContextInfo_t list \<Rightarrow> crash + event list" where
  "DoCmdShow_loop env flag_silence [] = Inr []"
| "DoCmdShow_loop env flag_silence (contextInfoP # rest) =
     (case ShowContext env flag_silence contextInfoP of
        Inl c \<Rightarrow> Inl c
      | Inr out \<Rightarrow>
          (case DoCmdShow_loop env flag_silence rest of
             Inl c \<Rightarrow> Inl c
           | Inr out' \<Rightarrow> Inr (out @ out')))"

definition DoCmdShow :: "env \<Rightarrow> bool \<Rightarrow> string list \<Rightarrow> crash + (Result \<times> event list)" where
  "DoCmdShow env flag_silence argv =
     (let argc = length argv;
          matchContextName =
            (if argc \<ge> 2 then Some (PrvResolveContextNameAlias (argv ! 1)) else None)
      in
        if argc \<ge> 3
        then Inr (RESULT_PARAM_ERR,
                  ErrPrint flag_silence (''Invalid parameter '' @ quoted (argv ! 2) @ ''\<newline>''))
        else if \<not> malloc_ok env
        then Inr (RESULT_RUN_ERR, ErrPrint flag_silence ''Out of memory.\<newline>'')
        else
          (case PrvGetContextList env (map_option to_cbuf matchContextName) of
             Inl logErr \<Rightarrow>
               Inr (RESULT_RUN_ERR,
                    ErrPrint flag_silence
                      (''Error getting contexts info: '' @ fmt_PmLogErr env logErr @ ''\<newline>''))
           | Inr infos \<Rightarrow>
               (case DoCmdShow_loop env flag_silence
                       (take (nat (numContexts infos)) (contextInfos infos)) of
                  Inl c \<Rightarrow> Inl c
                | Inr out \<Rightarrow>
                    (case matchContextName of
                       None \<Rightarrow> Inr (RESULT_OK, out)
                     | Some m \<Rightarrow>
                         if numContexts infos = 0
                         then
                           (if PrvIsWildcardContextName (to_cbuf m)
                            then Inr (RESULT_RUN_ERR,
                                      out @ ErrPrint flag_silence
                                        (''No contexts matched '' @ quoted m @ ''.\<newline>''))
                            else Inr (RESULT_RUN_ERR,
                                      out @ ErrPrint flag_silence
                                        (''Context '' @ quoted m @ '' not found.\<newline>'')))
                         else Inr (RESULT_OK, out)))))"

text \<open>
  The argument loop of \<open>DoCmdSet\<close>; its locals are \<open>matchContextName\<close>,
  \<open>matchedContext\<close> and \<open>levelIntP\<close>.
\<close>

fun DoCmdSet_args ::
  "env \<Rightarrow> bool \<Rightarrow> string list \<Rightarrow> string option \<Rightarrow> PmLogContext \<Rightarrow> int option
     \<Rightarrow> (Result \<times> event list) + (string option \<times> PmLogContext \<times> int option)" where
  "DoCmdSet_args env flag_silence [] matchContextName matchedContext levelIntP =
     Inr (matchContextName, matchedContext, levelIntP)"
| "DoCmdSet_args env flag_silence (arg # rest) matchContextName matchedContext levelIntP =
     (if matchContextName = None then
        (let m = PrvResolveContextNameAlias arg in
           if \<not> PrvIsWildcardContextName (to_cbuf m) then
             (case PmLogFindContext env m of (logErr, c) \<Rightarrow>
                if logErr \<noteq> kPmLogErr_None
                then Inl (RESULT_PARAM_ERR,
                          ErrPrint flag_silence (''Context '' @ quoted m @ '' not found.\<newline>''))
                else DoCmdSet_args env flag_silence rest (Some m) c levelIntP)
           else DoCmdSet_args env flag_silence rest (Some m) matchedContext levelIntP)
      else if levelIntP = None then
        (case PmLogStringToLevel env arg of
           None \<Rightarrow>
             Inl (RESULT_PARAM_ERR,
                  ErrPrint flag_silence (''Invalid level '' @ quoted arg @ ''.\<newline>''))
         | Some l \<Rightarrow> DoCmdSet_args env flag_silence rest matchContextName matchedContext (Some l))
      else
        Inl (RESULT_PARAM_ERR,
             ErrPrint flag_silence (''Invalid parameter '' @ quoted arg @ ''.\<newline>'')))"

text \<open>The loop over the snapshot: notice, then \<open>PmLogSetContextLevel\<close>, entry by entry.\<close>

fun DoCmdSet_loop :: "env \<Rightarrow> bool \<Rightarrow> int \<Rightarrow> ContextInfo_t list \<Rightarrow> Result \<times> event list" where
  "DoCmdSet_loop env flag_silence level [] = (RESULT_OK, [])"
| "DoCmdSet_loop env flag_silence level (contextInfoP # rest) =
     (let out = InfoPrint flag_silence
                  (''Setting context level for '' @ quoted (contextName contextInfoP) @ ''.\<newline>'')
                @ [Call_PmLogSetContextLevel (context_ptr contextInfoP) level];
          logErr = PmLogSetContextLevel env (context_ptr contextInfoP) level
      in
        if logErr \<noteq> kPmLogErr_None
        then (RESULT_RUN_ERR,
              out @ ErrPrint flag_silence
                      (''Error setting context log level: '' @ fmt_PmLogErr env logErr @ ''\<newline>''))
        else (case DoCmdSet_loop env flag_silence level rest of (r, out') \<Rightarrow> (r, out @ out')))"

definition DoCmdSet :: "env \<Rightarrow> bool \<Rightarrow> string list \<Rightarrow> Result \<times> event list" where
  "DoCmdSet env flag_silence argv =
     (case DoCmdSet_args env flag_silence (drop 1 argv) None None None of
        Inl r \<Rightarrow> r
      | Inr (matchContextName, matchedContext, levelIntP) \<Rightarrow>
          (case matchContextName of
             None \<Rightarrow> (RESULT_PARAM_ERR, ErrPrint flag_silence ''Context not specified.\<newline>'')
           | Some m \<Rightarrow>
               (case levelIntP of
                  None \<Rightarrow> (RESULT_PARAM_ERR, ErrPrint flag_silence ''Level not specified.\<newline>'')
                | Some level \<Rightarrow>
                    if matchedContext = None then
                      (if \<not> malloc_ok env
                       then (RESULT_RUN_ERR, ErrPrint flag_silence ''Out of memory.\<newline>'')
                       else
                         (case PrvGetContextList env (Some (to_cbuf m)) of
                            Inl logErr \<Rightarrow>
                              (RESULT_RUN_ERR,
                               ErrPrint flag_silence
                                 (''Error getting contexts info: '' @ fmt_PmLogErr env logErr
                                    @ ''\<newline>''))
                          | Inr infos \<Rightarrow>
                              if numContexts infos = 0
                              then (RESULT_RUN_ERR,
                                    ErrPrint flag_silence
                                      (''No contexts matched '' @ quoted m @ ''.\<newline>''))
                              else DoCmdSet_loop env flag_silence level
                                     (take (nat (numContexts infos)) (contextInfos infos))))
                    else
                      (let out = InfoPrint flag_silence
                                   (''Setting context level for '' @ quoted m @ ''.\<newline>'')
                                 @ [Call_PmLogSetContextLevel matchedContext level];
                           logErr = PmLogSetContextLevel env matchedContext level
                       in
                         if logErr \<noteq> kPmLogErr_None
                         then (RESULT_RUN_ERR,
                               out @ ErrPrint flag_silence
                                       (''Error setting context log level: ''
                                          @ fmt_PmLogErr env logErr @ ''\<newline>''))
                         else (RESULT_OK, out)))))"

section \<open>The commands \<open>log\<close> and \<open>logkv\<close>\<close>

text \<open>The argument loop of \<open>DoCmdLog\<close>; its locals are the context name, the
  context, \<open>levelIntP\<close> and \<open>msg\<close>.\<close>

fun DoCmdLog_args ::
  "env \<Rightarrow> bool \<Rightarrow> string list \<Rightarrow> string option \<Rightarrow> PmLogContext \<Rightarrow> int option \<Rightarrow> string option
     \<Rightarrow> (Result \<times> event list) + (string option \<times> PmLogContext \<times> int option \<times> string option)" where
  "DoCmdLog_args env flag_silence [] contextName' context' levelIntP msg =
     Inr (contextName', context', levelIntP, msg)"
| "DoCmdLog_args env flag_silence (arg # rest) contextName' context' levelIntP msg =
     (if contextName' = None then
        (case PmLogFindContext env (PrvResolveContextNameAlias arg) of (logErr, c) \<Rightarrow>
           if logErr \<noteq> kPmLogErr_None
           then Inl (RESULT_PARAM_ERR,
                     ErrPrint flag_silence (''Invalid context '' @ quoted arg @ ''.\<newline>''))
           else DoCmdLog_args env flag_silence rest (Some (PrvResolveContextNameAlias arg)) c
                  levelIntP msg)
      else if levelIntP = None then
        (let levelIntP = PmLogStringToLevel env arg in
           if levelIntP = None \<or> levelIntP = Some (- 1)
           then Inl (RESULT_PARAM_ERR,
                     ErrPrint flag_silence (''Invalid level '' @ quoted arg @ ''.\<newline>''))
           else DoCmdLog_args env flag_silence rest contextName' context' levelIntP msg)
      else if msg = None then
        DoCmdLog_args env flag_silence rest contextName' context' levelIntP (Some arg)
      else
        Inl (RESULT_PARAM_ERR,
             ErrPrint flag_silence (''Invalid parameter '' @ quoted arg @ ''.\<newline>'')))"

definition DoCmdLog :: "env \<Rightarrow> bool \<Rightarrow> string list \<Rightarrow> Result \<times> event list" where
  "DoCmdLog env flag_silence argv =
     (case (if length argv = 2
            then DoCmdLog_args env flag_silence (drop 1 argv)
                   (Some kPmLogGlobalContextName) (kPmLogGlobalContext env)
                   (Some kPmLogLevel_Notice) None
            else DoCmdLog_args env flag_silence (drop 1 argv) None None None None) of
        Inl r \<Rightarrow> r
      | Inr (contextName', context', levelIntP, msg) \<Rightarrow>
          if contextName' = None
          then (RESULT_PARAM_ERR, ErrPrint flag_silence ''Context not specified.\<newline>'')
          else
            (case levelIntP of
               None \<Rightarrow> (RESULT_PARAM_ERR, ErrPrint flag_silence ''Level not specified.\<newline>'')
             | Some level \<Rightarrow>
                 (case msg of
                    None \<Rightarrow>
                      (RESULT_PARAM_ERR, ErrPrint flag_silence ''Message not specified.\<newline>'')
                  | Some m \<Rightarrow>
                      (let out = [Call_PmLogPrint context' level m];
                           logErr = PmLogPrint env context' level m
                       in
                         if logErr \<noteq> kPmLogErr_None
                         then (RESULT_RUN_ERR,
                               out @ ErrPrint flag_silence
                                       (''Error logging: '' @ fmt_PmLogErr env logErr @ ''\<newline>''))
                         else (RESULT_OK, out)))))"

subsection \<open>The buffer \<open>kvPair\<close>\<close>

definition kvPair_size :: nat where
  "kvPair_size = 1024"

text \<open>Writing bytes at an offset of a buffer; a write past its end is the overflow.\<close>

definition write_bytes :: "cbuf \<Rightarrow> nat \<Rightarrow> char list \<Rightarrow> crash + cbuf" where
  "write_bytes buf off bs =
     (if off + length bs \<le> length buf
      then Inr (take off buf @ bs @ drop (off + length bs) buf)
      else Inl StackBufferOverflow)"

text \<open>
  \<open>snprintf(buf + off, n, ...)\<close> where the format expands to \<open>s\<close>: nothing is
  written for \<open>n = 0\<close>, else at most \<open>n - 1\<close> bytes of \<open>s\<close> and a terminator.
\<close>

definition snprintf_at :: "cbuf \<Rightarrow> nat \<Rightarrow> nat \<Rightarrow> string \<Rightarrow> crash + cbuf" where
  "snprintf_at buf off n s =
     (if n = 0 then Inr buf else write_bytes buf off (take (n - 1) s @ [NUL]))"

text \<open>\<open>strncat(dst, src, 1)\<close> for a \<open>src\<close> of one character \<open>c\<close>.\<close>

definition strncat1 :: "cbuf \<Rightarrow> char \<Rightarrow> crash + cbuf" where
  "strncat1 dst c = write_bytes dst (length (cstr dst)) [c, NUL]"

text \<open>An \<open>int\<close> converted to \<open>size_t\<close> (64 bits; the model takes the same branches
  for 32 bits).\<close>

definition to_size_t :: "int \<Rightarrow> nat" where
  "to_size_t i = nat (i mod 2 ^ 64)"

text \<open>
  \<open>sscanf(arg, "%m[^=]=%m[^\t\n]", &keyBuffer, &valueBuffer)\<close>: the return value and
  the two strings (empty where the conversion did not assign). The key is the
  non-empty run of bytes before the first \<open>=\<close>; the value is the non-empty run of
  bytes after it, up to the first tab or newline.
\<close>

definition sscanf_kv :: "string \<Rightarrow> int \<times> string \<times> string" where
  "sscanf_kv arg =
     (let keyBuffer = takeWhile (\<lambda>c. c \<noteq> CHR ''='') arg;
          rest = dropWhile (\<lambda>c. c \<noteq> CHR ''='') arg
      in
        if arg = [] then (- 1, [], [])
        else if keyBuffer = [] then (0, [], [])
        else if rest = [] then (1, keyBuffer, [])
        else
          (let valueBuffer = takeWhile (\<lambda>c. c \<noteq> CHR 0x09 \<and> c \<noteq> CHR 0x0A) (tl rest) in
             if valueBuffer = [] then (1, keyBuffer, []) else (2, keyBuffer, valueBuffer)))"

subsection \<open>The key/value loop\<close>

text \<open>
  The inner \<open>while\<close> of \<open>DoCmdLogKV\<close> (lines 753 to 823). Locals: \<open>paramIndex\<close>,
  \<open>arg\<close>, \<open>kvPair\<close>, \<open>index\<close>, \<open>result\<close>; \<open>out\<close> collects the events.
  The result is a crash, or a \<open>return\<close> of the command (left), or the locals at the
  \<open>break\<close> (right). Every \<open>argv[i]\<close> with \<open>i < argc\<close> is a string, so
  \<open>if (arg)\<close> holds throughout.
\<close>

function DoCmdLogKV_kv ::
  "bool \<Rightarrow> string list \<Rightarrow> nat \<Rightarrow> string \<Rightarrow> cbuf \<Rightarrow> nat \<Rightarrow> bool \<Rightarrow> event list
     \<Rightarrow> crash + ((Result \<times> event list) + (nat \<times> string \<times> cbuf \<times> event list))" where
  "DoCmdLogKV_kv flag_silence argv paramIndex arg kvPair index result out =
     (let argc = length argv in
        if paramIndex < argc then
          (if paramIndex = argc - 1 then
             (if paramIndex = 4 then
                (case snprintf_at kvPair 0 kvPair_size ''{}'' of
                   Inl c \<Rightarrow> Inl c
                 | Inr kvPair \<Rightarrow> Inr (Inr (paramIndex, arg, kvPair, out)))
              else Inr (Inr (paramIndex, arg, kvPair, out)))
           else
             (case (if index = 0
                    then (case strncat1 kvPair (CHR ''{'') of
                            Inl c \<Rightarrow> Inl c
                          | Inr kvPair \<Rightarrow> Inr (kvPair, index + 1))
                    else Inr (kvPair, index)) of
                Inl c \<Rightarrow> Inl c
              | Inr (kvPair, index) \<Rightarrow>
                  (case sscanf_kv arg of (n, keyBuffer, valueBuffer) \<Rightarrow>
                     if 2 > n then
                       (let out = out @ ErrPrint flag_silence
                                          (''key and value pair is wrong : '' @ arg @ ''\<newline>'')
                        in
                          if \<not> result then Inr (Inl (RESULT_PARAM_ERR, out))
                          else DoCmdLogKV_kv flag_silence argv (paramIndex + 1)
                                 (argv ! (paramIndex + 1)) kvPair index result out)
                     else
                       (case snprintf_at kvPair index
                               (to_size_t (int kvPair_size - int index - 1))
                               (CHR 0x22 # keyBuffer @ CHR 0x22 # CHR '':'' # valueBuffer) of
                          Inl c \<Rightarrow> Inl c
                        | Inr kvPair \<Rightarrow>
                            (let kvLength = length keyBuffer + 2 + 1 + length valueBuffer in
                               (case (if paramIndex = argc - 2
                                      then (case strncat1 kvPair (CHR ''}'') of
                                              Inl c \<Rightarrow> Inl c
                                            | Inr kvPair \<Rightarrow> Inr (kvPair, index))
                                      else (case strncat1 kvPair (CHR '','') of
                                              Inl c \<Rightarrow> Inl c
                                            | Inr kvPair \<Rightarrow> Inr (kvPair, index + (kvLength + 1)))) of
                                  Inl c \<Rightarrow> Inl c
                                | Inr (kvPair, index) \<Rightarrow>
                                    DoCmdLogKV_kv flag_silence argv (paramIndex + 1)
                                      (argv ! (paramIndex + 1)) kvPair index True out))))))
        else Inr (Inr (paramIndex, arg, kvPair, out)))"
  by pat_completeness auto
termination
  by (relation "measure (\<lambda>(s, argv, paramIndex, r). length argv - paramIndex)") auto

declare DoCmdLogKV_kv.simps [simp del]

lemma DoCmdLogKV_kv_paramIndex:
  "DoCmdLogKV_kv flag_silence argv paramIndex arg kvPair index result out
     = Inr (Inr (paramIndex', arg', kvPair', out'))
   \<Longrightarrow> paramIndex \<le> paramIndex'"
proof (induction flag_silence argv paramIndex arg kvPair index result out
       rule: DoCmdLogKV_kv.induct)
  case (1 flag_silence argv paramIndex arg kvPair index result out)
  from "1.prems" show ?case
    apply (subst (asm) DoCmdLogKV_kv.simps)
    apply (simp only: Let_def split: if_splits sum.splits prod.splits)
    using "1.IH" apply (fastforce dest: Suc_leD simp: Let_def)+
    done
qed

subsection \<open>The argument loop of \<open>DoCmdLogKV\<close> and the command\<close>

text \<open>
  The outer \<open>while\<close> (lines 707 to 837). Locals: \<open>paramIndex\<close>, the context name,
  the context, \<open>levelIntP\<close>, \<open>msgID\<close>, \<open>msg\<close>, \<open>kvPair\<close>, \<open>isCheckedKV\<close>.
  The branch of the key/value loop does not advance \<open>paramIndex\<close> itself.
\<close>

function DoCmdLogKV_loop ::
  "env \<Rightarrow> bool \<Rightarrow> string list \<Rightarrow> nat \<Rightarrow> string option \<Rightarrow> PmLogContext \<Rightarrow> int option
     \<Rightarrow> string option \<Rightarrow> string option \<Rightarrow> cbuf \<Rightarrow> bool \<Rightarrow> event list
     \<Rightarrow> crash + ((Result \<times> event list)
                 + (string option \<times> PmLogContext \<times> int option \<times> string option \<times> string option
                      \<times> cbuf \<times> event list))" where
  "DoCmdLogKV_loop env flag_silence argv paramIndex contextName' context' levelIntP msgID msg
       kvPair isCheckedKV out =
     (if paramIndex < length argv then
        (let arg = argv ! paramIndex in
           if contextName' = None then
             (case PmLogFindContext env (PrvResolveContextNameAlias arg) of (logErr, c) \<Rightarrow>
                if logErr \<noteq> kPmLogErr_None
                then Inr (Inl (RESULT_PARAM_ERR,
                               out @ ErrPrint flag_silence
                                       (''Invalid context '' @ quoted arg @ ''.\<newline>'')))
                else DoCmdLogKV_loop env flag_silence argv (paramIndex + 1)
                       (Some (PrvResolveContextNameAlias arg)) c levelIntP msgID msg
                       kvPair isCheckedKV out)
           else
             (case levelIntP of
                None \<Rightarrow>
                  (let levelIntP = PmLogStringToLevel env arg in
                     if levelIntP = None \<or> levelIntP = Some (- 1)
                     then Inr (Inl (RESULT_PARAM_ERR,
                                    out @ ErrPrint flag_silence
                                            (''Invalid level '' @ quoted arg @ ''.\<newline>'')))
                     else DoCmdLogKV_loop env flag_silence argv (paramIndex + 1)
                            contextName' context' levelIntP msgID msg kvPair isCheckedKV out)
              | Some level \<Rightarrow>
                  if msgID = None \<and> level \<noteq> kPmLogLevel_Debug then
                    DoCmdLogKV_loop env flag_silence argv (paramIndex + 1)
                      contextName' context' levelIntP (Some arg) msg kvPair isCheckedKV out
                  else if kvPair ! 0 = NUL \<and> \<not> isCheckedKV \<and> level \<noteq> kPmLogLevel_Debug then
                    (case DoCmdLogKV_kv flag_silence argv paramIndex arg kvPair 0 False out of
                       Inl c \<Rightarrow> Inl c
                     | Inr (Inl r) \<Rightarrow> Inr (Inl r)
                     | Inr (Inr (paramIndex, arg, kvPair, out)) \<Rightarrow>
                         DoCmdLogKV_loop env flag_silence argv paramIndex
                           contextName' context' levelIntP msgID msg
                           (kvPair[kvPair_size - 1 := NUL]) True out)
                  else if msg = None then
                    DoCmdLogKV_loop env flag_silence argv (paramIndex + 1)
                      contextName' context' levelIntP msgID (Some arg) kvPair isCheckedKV out
                  else
                    Inr (Inl (RESULT_PARAM_ERR,
                              out @ ErrPrint flag_silence
                                      (''Invalid parameter '' @ quoted arg @ ''.\<newline>'')))))
      else Inr (Inr (contextName', context', levelIntP, msgID, msg, kvPair, out)))"
  by pat_completeness auto
termination
proof (relation "measure (\<lambda>(env, s, argv, paramIndex, cn, c, l, mid, m, kv, isCheckedKV, out).
                   2 * (length argv - paramIndex) + (if isCheckedKV then 0 else 1))",
       goal_cases)
  case (5 env flag_silence argv paramIndex contextName' context' levelIntP msgID msg
          kvPair isCheckedKV out arg level r r2 p' rest arg' rest' kvPair' out')
  then have "paramIndex \<le> p'"
    using DoCmdLogKV_kv_paramIndex by blast
  with 5 show ?case by simp
qed auto

declare DoCmdLogKV_loop.simps [simp del]

definition DoCmdLogKV :: "env \<Rightarrow> bool \<Rightarrow> string list \<Rightarrow> crash + (Result \<times> event list)" where
  "DoCmdLogKV env flag_silence argv =
     (if length argv < 4
      then Inr (RESULT_PARAM_ERR,
                ErrPrint flag_silence
                  ''Minimum 4 parameters are expected. Please see help for more details.\<newline>'')
      else
        (case DoCmdLogKV_loop env flag_silence argv 1 None None None None None
                (replicate kvPair_size NUL) False [] of
           Inl c \<Rightarrow> Inl c
         | Inr (Inl r) \<Rightarrow> Inr r
         | Inr (Inr (contextName', context', levelIntP, msgID, msg, kvPair, out)) \<Rightarrow>
             if contextName' = None
             then Inr (RESULT_PARAM_ERR,
                       out @ ErrPrint flag_silence ''Context is not specified.\<newline>'')
             else
               (case levelIntP of
                  None \<Rightarrow>
                    Inr (RESULT_PARAM_ERR,
                         out @ ErrPrint flag_silence ''Level is not specified.\<newline>'')
                | Some level \<Rightarrow>
                    if msgID = None \<and> level \<noteq> kPmLogLevel_Debug
                    then Inr (RESULT_PARAM_ERR,
                              out @ ErrPrint flag_silence ''Message ID is not specified.\<newline>'')
                    else
                      (let kv = (if level = kPmLogLevel_Debug then None else Some (cstr kvPair));
                           out = out @ [Call_PmLogString context' level msgID kv msg];
                           logErr = PmLogString env context' level msgID kv msg
                       in
                         if logErr \<noteq> kPmLogErr_None
                         then Inr (RESULT_RUN_ERR,
                                   out @ ErrPrint flag_silence
                                           (''Error logging: '' @ fmt_PmLogErr env logErr
                                              @ ''\<newline>''))
                         else Inr (RESULT_OK, out)))))"

section \<open>The commands \<open>klog\<close>, \<open>flush\<close>, \<open>reconf\<close> and \<open>def\<close>\<close>

text \<open>\<open>printf\<close>'s \<open>%d\<close>.\<close>

fun show_nat :: "nat \<Rightarrow> string" where
  "show_nat n =
     (if n < 10 then [char_of (48 + n)] else show_nat (n div 10) @ [char_of (48 + n mod 10)])"

definition show_int :: "int \<Rightarrow> string" where
  "show_int i = (if i < 0 then CHR ''-'' # show_nat (nat (- i)) else show_nat (nat i))"

text \<open>
  \<open>mysprintf(dst, dstSize, fmt, ...)\<close> of PmLogCtlUtil.c, for a destination and a
  format that are not NULL; \<open>s\<close> is what the format expands to. It returns the
  events and the string left in \<open>dst\<close>, which is given as \<open>dst\<close> for the case that
  nothing is written.
\<close>

definition mysprintf :: "bool \<Rightarrow> string \<Rightarrow> nat \<Rightarrow> string \<Rightarrow> event list \<times> string" where
  "mysprintf flag_silence dst dstSize s =
     (if dstSize < 1 then (ErrPrint flag_silence ''mysprintf invalid dst size\<newline>'', dst)
      else if length s \<ge> dstSize
      then (ErrPrint flag_silence ''mysprintf buffer overflow\<newline>'', take (dstSize - 1) s)
      else ([], s))"

definition WriteKMsg :: "env \<Rightarrow> bool \<Rightarrow> int \<Rightarrow> string \<Rightarrow> Result \<times> event list" where
  "WriteKMsg env flag_silence priority msgStr =
     (case fopen_kmsg env of
        Some err \<Rightarrow>
          (RESULT_RUN_ERR, ErrPrint flag_silence (''Error opening /dev/kmsg: '' @ err))
      | None \<Rightarrow>
          (case (if priority \<ge> 0
                 then mysprintf flag_silence [] 8 (''<'' @ show_int priority @ ''>'')
                 else ([], [])) of
             (out, priorityStr) \<Rightarrow>
               (let line = priorityStr @ msgStr @ ''\<newline>'' in
                  (case fprintf_kmsg env line of
                     Some err \<Rightarrow>
                       (RESULT_RUN_ERR,
                        out @ ErrPrint flag_silence (''Error writing /dev/kmsg: '' @ err))
                   | None \<Rightarrow> (RESULT_OK, out @ [Write_kmsg line])))))"

text \<open>The argument loop of \<open>DoCmdKLog\<close>; \<open>-p\<close> takes the next argument as well.\<close>

fun DoCmdKLog_args ::
  "env \<Rightarrow> bool \<Rightarrow> string list \<Rightarrow> int \<Rightarrow> string option
     \<Rightarrow> (Result \<times> event list) + (int \<times> string option)" where
  "DoCmdKLog_args env flag_silence [] level msg = Inr (level, msg)"
| "DoCmdKLog_args env flag_silence (arg # rest) level msg =
     (if take 1 arg = ''-'' then
        (if strcmp (to_cbuf arg) (to_cbuf ''-p'') = 0 then
           (case rest of
              [] \<Rightarrow>
                Inl (RESULT_PARAM_ERR,
                     ErrPrint flag_silence ''Invalid parameter: -p requires value\<newline>'')
            | arg # rest \<Rightarrow>
                (case PmLogStringToLevel env arg of
                   None \<Rightarrow>
                     Inl (RESULT_PARAM_ERR,
                          ErrPrint flag_silence (''Invalid level '' @ quoted arg @ ''.\<newline>''))
                 | Some l \<Rightarrow> DoCmdKLog_args env flag_silence rest l msg))
         else
           Inl (RESULT_PARAM_ERR,
                ErrPrint flag_silence (''Invalid parameter '' @ quoted arg @ ''.\<newline>'')))
      else if msg = None then DoCmdKLog_args env flag_silence rest level (Some arg)
      else
        Inl (RESULT_PARAM_ERR,
             ErrPrint flag_silence (''Invalid parameter '' @ quoted arg @ ''.\<newline>'')))"

definition DoCmdKLog :: "env \<Rightarrow> bool \<Rightarrow> string list \<Rightarrow> Result \<times> event list" where
  "DoCmdKLog env flag_silence argv =
     (case DoCmdKLog_args env flag_silence (drop 1 argv) kPmLogLevel_Notice None of
        Inl r \<Rightarrow> r
      | Inr (level, msg) \<Rightarrow>
          (case msg of
             None \<Rightarrow> (RESULT_PARAM_ERR, ErrPrint flag_silence ''Message not specified.\<newline>'')
           | Some m \<Rightarrow> WriteKMsg env flag_silence level m))"

definition DoCmdFlush :: "env \<Rightarrow> bool \<Rightarrow> Result \<times> event list" where
  "DoCmdFlush env flag_silence =
     (case PmLogGetContext env ''pmlogctl'' of (logErr, c) \<Rightarrow>
        if logErr \<noteq> kPmLogErr_None
        then (RESULT_RUN_ERR,
              [Call_PmLogGetContext ''pmlogctl'']
              @ ErrPrint flag_silence
                  (''Error getting context PmLogCtl: '' @ fmt_PmLogErr env logErr @ ''\<newline>''))
        else
          (let out = [Call_PmLogGetContext ''pmlogctl'',
                      Call_PmLogInfo c ''FLUSH_BUFFER'' ''Manually Flushing Buffers''];
               logErr = PmLogInfo env c ''FLUSH_BUFFER'' ''Manually Flushing Buffers''
           in
             if logErr \<noteq> kPmLogErr_None
             then (RESULT_RUN_ERR,
                   out @ ErrPrint flag_silence
                           (''Error logging: '' @ fmt_PmLogErr env logErr @ ''\<newline>''))
             else (RESULT_OK, out)))"

definition DoCmdReConf :: "env \<Rightarrow> bool \<Rightarrow> string list \<Rightarrow> Result \<times> event list" where
  "DoCmdReConf env flag_silence argv =
     (case drop 1 argv of
        arg # rest \<Rightarrow>
          (RESULT_PARAM_ERR,
           ErrPrint flag_silence (''Invalid parameter '' @ quoted arg @ ''.\<newline>''))
      | [] \<Rightarrow>
          (let out = [Call_PmLogPrint (kPmLogGlobalContext env) kPmLogLevel_Emergency
                        ''!loglib loadconf''];
               logErr = PmLogPrint env (kPmLogGlobalContext env) kPmLogLevel_Emergency
                          ''!loglib loadconf''
           in
             if logErr \<noteq> kPmLogErr_None
             then (RESULT_RUN_ERR,
                   out @ ErrPrint flag_silence
                           (''Error logging: '' @ fmt_PmLogErr env logErr @ ''\<newline>''))
             else (RESULT_OK, out)))"

definition kLevelNotSpecified :: int where
  "kLevelNotSpecified = - 999"

text \<open>The argument loop of \<open>DoCmdDef\<close>; its locals are the context name,
  \<open>levelIntP\<close> and \<open>level\<close>.\<close>

fun DoCmdDef_args ::
  "env \<Rightarrow> bool \<Rightarrow> string list \<Rightarrow> string option \<Rightarrow> int option \<Rightarrow> int
     \<Rightarrow> (Result \<times> event list) + (string option \<times> int)" where
  "DoCmdDef_args env flag_silence [] contextName' levelIntP level = Inr (contextName', level)"
| "DoCmdDef_args env flag_silence (arg # rest) contextName' levelIntP level =
     (if contextName' = None then
        (let nm = PrvResolveContextNameAlias arg in
           (case PmLogFindContext env nm of (logErr, c) \<Rightarrow>
              if logErr = kPmLogErr_None
              then Inl (RESULT_OK,
                        ErrPrint flag_silence
                          (''Context '' @ quoted nm @ '' is already defined.\<newline>''))
              else DoCmdDef_args env flag_silence rest (Some nm) levelIntP level))
      else if levelIntP = None then
        (case PmLogStringToLevel env arg of
           None \<Rightarrow>
             Inl (RESULT_PARAM_ERR,
                  ErrPrint flag_silence (''Invalid level '' @ quoted arg @ ''.\<newline>''))
         | Some l \<Rightarrow> DoCmdDef_args env flag_silence rest contextName' (Some l) l)
      else
        Inl (RESULT_PARAM_ERR,
             ErrPrint flag_silence (''Invalid parameter '' @ quoted arg @ ''.\<newline>'')))"

definition DoCmdDef :: "env \<Rightarrow> bool \<Rightarrow> string list \<Rightarrow> Result \<times> event list" where
  "DoCmdDef env flag_silence argv =
     (case DoCmdDef_args env flag_silence (drop 1 argv) None None kLevelNotSpecified of
        Inl r \<Rightarrow> r
      | Inr (contextName', level) \<Rightarrow>
          (case contextName' of
             None \<Rightarrow> (RESULT_PARAM_ERR, ErrPrint flag_silence ''Context not specified.\<newline>'')
           | Some nm \<Rightarrow>
               (case PmLogGetContext env nm of (logErr, c) \<Rightarrow>
                  if logErr \<noteq> kPmLogErr_None
                  then (RESULT_RUN_ERR,
                        [Call_PmLogGetContext nm]
                        @ ErrPrint flag_silence
                            (''Error defining context: '' @ fmt_PmLogErr env logErr @ ''\<newline>''))
                  else if level \<noteq> kLevelNotSpecified then
                    (let out = [Call_PmLogGetContext nm, Call_PmLogSetContextLevel c level];
                         logErr = PmLogSetContextLevel env c level
                     in
                       if logErr \<noteq> kPmLogErr_None
                       then (RESULT_RUN_ERR,
                             out @ ErrPrint flag_silence
                                     (''Error setting context log level: ''
                                        @ fmt_PmLogErr env logErr @ ''\<newline>''))
                       else (RESULT_OK, out))
                  else (RESULT_OK, [Call_PmLogGetContext nm]))))"

section \<open>Usage and \<open>main\<close>\<close>

definition strncmp :: "cbuf \<Rightarrow> cbuf \<Rightarrow> nat \<Rightarrow> int" where
  "strncmp a b n = bytes_cmp (take n (cstr a)) (take n (cstr b))"

text \<open>\<open>printf\<close>'s \<open>%-10s\<close>; glibc prints \<open>(null)\<close> for a NULL string.\<close>

definition pad_left_justified :: "nat \<Rightarrow> string option \<Rightarrow> string" where
  "pad_left_justified w s =
     (let t = (case s of None \<Rightarrow> ''(null)'' | Some x \<Rightarrow> x) in t @ replicate (w - length t) (CHR '' ''))"

definition ShowUsage :: "env \<Rightarrow> bool \<Rightarrow> event list" where
  "ShowUsage env flag_silence =
     InfoPrint flag_silence ''PmLogCtl COMMAND [PARAM...]\<newline>''
     @ InfoPrint flag_silence ''PmLogCtl -s COMMAND [PARAM...] # disable stdout messages\<newline>''
     @ InfoPrint flag_silence ''  help                         # show usage info\<newline>''
     @ InfoPrint flag_silence ''  def <context> [<level>]      # define logging context\<newline>''
     @ InfoPrint flag_silence ''  flush                        # flush all ring buffers\<newline>''
     @ InfoPrint flag_silence ''  log <context> <level> <message>\<newline>''
     @ InfoPrint flag_silence ''                               # log a message\<newline>''
     @ InfoPrint flag_silence
         ''  logkv <context> <level> <msgID> <key1>=<value1> <key2>=<value2> ... <message>\<newline>''
     @ InfoPrint flag_silence
         ''                               # log a message include msgID and key-value pairs\<newline>''
     @ InfoPrint flag_silence
         (''                               # If you want value be a string, use quoting => <key>=<''
          @ [CHR 0x5C, CHR 0x22] @ ''value'' @ [CHR 0x5C, CHR 0x22] @ ''>\<newline>'')
     @ InfoPrint flag_silence
         ''                               # Debug level message takes only freetext. msgID and key-value pairs are not needed\<newline>''
     @ InfoPrint flag_silence ''  klog [-p <level>] <msg>      # log a kernel message\<newline>''
     @ InfoPrint flag_silence ''  reconf                       # re-load lib options from conf\<newline>''
     @ InfoPrint flag_silence ''  set <context> <level>        # set logging context level\<newline>''
     @ InfoPrint flag_silence ''  show [<context>]             # show logging context(s)\<newline>''
     @ InfoPrint flag_silence ''\<newline>''
     @ InfoPrint flag_silence ''Contexts:\<newline>''
     @ InfoPrint flag_silence ''  The global context can be specified as '.'\<newline>''
     @ InfoPrint flag_silence ''\<newline>''
     @ InfoPrint flag_silence ''Levels:\<newline>''
     @ concat (map (\<lambda>level. InfoPrint flag_silence
                      (''  '' @ pad_left_justified 10 (PmLogLevelToString env level)
                         @ ''  # '' @ show_int level @ ''\<newline>''))
                 [- 1, 0, 1, 2, 3, 4, 5, 6, 7])"

definition EXIT_SUCCESS :: int where
  "EXIT_SUCCESS = 0"

definition EXIT_FAILURE :: int where
  "EXIT_FAILURE = 1"

text \<open>The chain of \<open>strcmp\<close> tests of \<open>main\<close> on the command word.\<close>

definition main_dispatch ::
  "env \<Rightarrow> bool \<Rightarrow> string \<Rightarrow> string list \<Rightarrow> crash + (Result \<times> event list)" where
  "main_dispatch env flag_silence cmd cmd_index =
     (if strcmp (to_cbuf cmd) (to_cbuf ''def'') = 0 then Inr (DoCmdDef env flag_silence cmd_index)
      else if strcmp (to_cbuf cmd) (to_cbuf ''log'') = 0 then Inr (DoCmdLog env flag_silence cmd_index)
      else if strcmp (to_cbuf cmd) (to_cbuf ''logkv'') = 0 then DoCmdLogKV env flag_silence cmd_index
      else if strcmp (to_cbuf cmd) (to_cbuf ''klog'') = 0 then Inr (DoCmdKLog env flag_silence cmd_index)
      else if strcmp (to_cbuf cmd) (to_cbuf ''reconf'') = 0
      then Inr (DoCmdReConf env flag_silence cmd_index)
      else if strcmp (to_cbuf cmd) (to_cbuf ''set'') = 0 then Inr (DoCmdSet env flag_silence cmd_index)
      else if strcmp (to_cbuf cmd) (to_cbuf ''show'') = 0 then DoCmdShow env flag_silence cmd_index
      else if strcmp (to_cbuf cmd) (to_cbuf ''view'') = 0
      then Inr (DoCmdView env flag_silence cmd_index)
      else if strcmp (to_cbuf cmd) (to_cbuf ''flush'') = 0 then Inr (DoCmdFlush env flag_silence)
      else if strcmp (to_cbuf cmd) (to_cbuf ''help'') = 0 \<or> strcmp (to_cbuf cmd) (to_cbuf ''-help'') = 0
      then Inr (RESULT_HELP, ShowUsage env flag_silence)
      else Inr (RESULT_PARAM_ERR,
                ErrPrint flag_silence (''Invalid command '' @ quoted cmd @ ''\<newline>'')))"

text \<open>
  \<open>main\<close>: \<open>argv\<close> holds the \<open>argc\<close> strings of the command line, \<open>argv[argc]\<close>
  is NULL. The global \<open>flag_silence\<close> starts as false. The result is the exit status
  and the events of the run.
\<close>

definition main :: "env \<Rightarrow> string list \<Rightarrow> crash + (int \<times> event list)" where
  "main env argv =
     (let argc = length argv in
        (case (if argc < 2
               then Inr (False, RESULT_PARAM_ERR, ErrPrint False ''No command specified.\<newline>'')
               else
                 (let cmd = argv ! 1 in
                    if strncmp (to_cbuf cmd) (to_cbuf ''-s'') 2 = 0 then
                      (if 2 < argc
                       then map_sum id (\<lambda>r. (True, r)) (main_dispatch env True (argv ! 2) (drop 2 argv))
                       else Inr (True, RESULT_PARAM_ERR,
                                 ErrPrint True ''No command specified.\<newline>''))
                    else map_sum id (\<lambda>r. (False, r)) (main_dispatch env False cmd (drop 1 argv)))) of
           Inl c \<Rightarrow> Inl c
         | Inr (flag_silence, result, out) \<Rightarrow>
             Inr (if result = RESULT_OK then EXIT_SUCCESS else EXIT_FAILURE,
                  out @ (if result = RESULT_PARAM_ERR then SuggestHelp flag_silence else []))))"

section \<open>What the lister is expected to retain\<close>

text \<open>
  \<open>fetch env i\<close> is the entry the loop fetches at index \<open>i\<close> (handle, then name), or
  the error of the first call that fails. \<open>keeps\<close> is the test applied to a fetched
  entry, \<open>matching env m i n\<close> the entries of the indices \<open>i\<close> to \<open>n - 1\<close> that
  pass it, in registry order, and \<open>retained\<close> the first \<open>numContexts\<close> slots of a
  snapshot. \<open>qsort_contract\<close> is what the C standard promises of \<open>qsort\<close>: the array
  is permuted and ends up ordered by the comparison function; nothing is promised on
  the order of elements that compare equal.
\<close>

definition fetch :: "env \<Rightarrow> int \<Rightarrow> PmLogErr + ContextInfo_t" where
  "fetch env i =
     (case PmLogGetIndContext env i of (logErr, c) \<Rightarrow>
        if logErr \<noteq> kPmLogErr_None then Inl logErr
        else
          (case PmLogGetContextName env c of (logErr, nm) \<Rightarrow>
             if logErr \<noteq> kPmLogErr_None then Inl logErr
             else Inr \<lparr>context_ptr = c, contextName = nm\<rparr>))"

definition keeps :: "cbuf option \<Rightarrow> ContextInfo_t \<Rightarrow> bool" where
  "keeps m ci = PrvMatchContextName (to_cbuf (contextName ci)) m"

definition matching :: "env \<Rightarrow> cbuf option \<Rightarrow> int \<Rightarrow> int \<Rightarrow> ContextInfo_t list" where
  "matching env m i n = filter (keeps m) (map (\<lambda>j. projr (fetch env j)) [i..n - 1])"

definition retained :: "ContextsInfo_t \<Rightarrow> ContextInfo_t list" where
  "retained cs = take (nat (numContexts cs)) (contextInfos cs)"

definition qsort_contract :: "env \<Rightarrow> bool" where
  "qsort_contract env =
     (\<forall>xs. mset (qsort env SortCmpContextInfoByName xs) = mset xs
          \<and> sorted_wrt (\<lambda>a b. SortCmpContextInfoByName a b \<le> 0)
               (qsort env SortCmpContextInfoByName xs))"

definition all_fetched :: "env \<Rightarrow> bool" where
  "all_fetched env =
     list_all (\<lambda>j. \<not> isl (fetch env j)) [0..snd (PmLogGetNumContexts env) - 1]"

section \<open>What \<open>set\<close> does for one snapshot entry\<close>

text \<open>The notice and the library call of one iteration of the loop of \<open>DoCmdSet\<close>.\<close>

definition set_step :: "env \<Rightarrow> bool \<Rightarrow> int \<Rightarrow> ContextInfo_t \<Rightarrow> event list" where
  "set_step env flag_silence level e =
     InfoPrint flag_silence (''Setting context level for '' @ quoted (contextName e) @ ''.\<newline>'')
     @ [Call_PmLogSetContextLevel (context_ptr e) level]"

section \<open>Printed output within a run\<close>

text \<open>\<open>is_print\<close> holds of the lines written to stdout and stderr; \<open>silenced\<close> drops
  them from the events of a run and keeps everything else in order.\<close>

fun is_print :: "event \<Rightarrow> bool" where
  "is_print (Stdout s) = True"
| "is_print (Stderr s) = True"
| "is_print e = False"

definition silenced :: "event list \<Rightarrow> event list" where
  "silenced out = filter (\<lambda>e. \<not> is_print e) out"

section \<open>One key/value argument\<close>

text \<open>
  What one iteration of the key/value loop does to \<open>kvPair\<close> and \<open>index\<close> for the
  argument \<open>arg\<close>: whether the argument parsed, and the new buffer and index, or the
  overflow. \<open>is_last\<close> says that the argument is the one before the last of
  \<open>argv\<close>.
\<close>

definition kv_item :: "bool \<Rightarrow> string \<Rightarrow> cbuf \<Rightarrow> nat \<Rightarrow> crash + (bool \<times> cbuf \<times> nat)" where
  "kv_item is_last arg kvPair index =
     (case (if index = 0
            then (case strncat1 kvPair (CHR ''{'') of
                    Inl c \<Rightarrow> Inl c
                  | Inr kvPair \<Rightarrow> Inr (kvPair, index + 1))
            else Inr (kvPair, index)) of
        Inl c \<Rightarrow> Inl c
      | Inr (kvPair, index) \<Rightarrow>
          (case sscanf_kv arg of (n, keyBuffer, valueBuffer) \<Rightarrow>
             if 2 > n then Inr (False, kvPair, index)
             else
               (case snprintf_at kvPair index
                       (to_size_t (int kvPair_size - int index - 1))
                       (CHR 0x22 # keyBuffer @ CHR 0x22 # CHR '':'' # valueBuffer) of
                  Inl c \<Rightarrow> Inl c
                | Inr kvPair \<Rightarrow>
                    (case strncat1 kvPair (if is_last then CHR ''}'' else CHR '','') of
                       Inl c \<Rightarrow> Inl c
                     | Inr kvPair \<Rightarrow>
                         Inr (True, kvPair,
                              if is_last then index
                              else index + (length keyBuffer + 2 + 1 + length valueBuffer + 1))))))"

text \<open>The 1024 bytes of \<open>kvPair\<close> when it holds the string \<open>s\<close> and zeros behind it.\<close>

definition buf_of :: "string \<Rightarrow> cbuf" where
  "buf_of s = s @ replicate (kvPair_size - length s) NUL"



section \<open>The structured message encoder of the specification\<close>






text \<open>The last step of \<open>DoCmdLogKV\<close>: the call of \<open>PmLogString\<close> and its outcome,
  after the events \<open>out\<close>.\<close>

definition logkv_emit ::
  "env \<Rightarrow> bool \<Rightarrow> PmLogContext \<Rightarrow> int \<Rightarrow> string option \<Rightarrow> string option \<Rightarrow> string option
     \<Rightarrow> event list \<Rightarrow> Result \<times> event list" where
  "logkv_emit env flag_silence c level msgID kv msg out =
     (let out = out @ [Call_PmLogString c level msgID kv msg];
          logErr = PmLogString env c level msgID kv msg
      in
        if logErr \<noteq> kPmLogErr_None
        then (RESULT_RUN_ERR,
              out @ ErrPrint flag_silence
                      (''Error logging: '' @ fmt_PmLogErr env logErr @ ''\<newline>''))
        else (RESULT_OK, out))"

text \<open>
  The key/value part of a \<open>logkv\<close> run, as a function of the arguments before the
  last one: the key/value loop is run on these arguments followed by an empty string,
  and yields a crash, a \<open>return\<close> of the command, or the payload and the events.
\<close>

definition kv_of ::
  "bool \<Rightarrow> string list \<Rightarrow> crash + ((Result \<times> event list) + (string \<times> event list))" where
  "kv_of flag_silence args =
     map_sum id (map_sum id (\<lambda>(p, a, kvPair, out). (cstr (kvPair[kvPair_size - 1 := NUL]), out)))
       (DoCmdLogKV_kv flag_silence (args @ [[]]) 4 ((args @ [[]]) ! 4)
          (replicate kvPair_size NUL) 0 False [])"

text \<open>What \<open>DoCmdLogKV\<close> does after its argument loop, on the locals the loop leaves.\<close>

definition logkv_finish ::
  "env \<Rightarrow> bool \<Rightarrow> string option \<Rightarrow> PmLogContext \<Rightarrow> int option \<Rightarrow> string option
     \<Rightarrow> string option \<Rightarrow> cbuf \<Rightarrow> event list \<Rightarrow> Result \<times> event list" where
  "logkv_finish env flag_silence contextName' context' levelIntP msgID msg kvPair out =
            (if contextName' = None
             then (RESULT_PARAM_ERR,
                       out @ ErrPrint flag_silence ''Context is not specified.\<newline>'')
             else
               (case levelIntP of
                  None \<Rightarrow>
                    (RESULT_PARAM_ERR,
                         out @ ErrPrint flag_silence ''Level is not specified.\<newline>'')
                | Some level \<Rightarrow>
                    if msgID = None \<and> level \<noteq> kPmLogLevel_Debug
                    then (RESULT_PARAM_ERR,
                              out @ ErrPrint flag_silence ''Message ID is not specified.\<newline>'')
                    else
                      (let kv = (if level = kPmLogLevel_Debug then None else Some (cstr kvPair));
                           out = out @ [Call_PmLogString context' level msgID kv msg];
                           logErr = PmLogString env context' level msgID kv msg
                       in
                         if logErr \<noteq> kPmLogErr_None
                         then (RESULT_RUN_ERR,
                                   out @ ErrPrint flag_silence
                                           (''Error logging: '' @ fmt_PmLogErr env logErr
                                              @ ''\<newline>''))
                         else (RESULT_OK, out))))"

section \<open>Example environments\<close>

text \<open>
  Concrete environments on which the theorems below are instantiated: a registry given
  as a list of (handle, name) pairs, a table of level names, and a sorting function
  standing for \<open>qsort\<close>. \<open>isort_by\<close> is insertion sort driven by the comparison
  function; \<open>isort_rev_by\<close> sorts the reversed array, so it leaves elements that
  compare equal in the opposite order.
\<close>

fun insert_by :: "('a \<Rightarrow> 'a \<Rightarrow> int) \<Rightarrow> 'a \<Rightarrow> 'a list \<Rightarrow> 'a list" where
  "insert_by cmp x [] = [x]"
| "insert_by cmp x (y # ys) = (if cmp x y \<le> 0 then x # y # ys else y # insert_by cmp x ys)"

definition isort_by :: "('a \<Rightarrow> 'a \<Rightarrow> int) \<Rightarrow> 'a list \<Rightarrow> 'a list" where
  "isort_by cmp xs = foldr (insert_by cmp) xs []"


definition example_levels :: "(string \<times> int) list" where
  "example_levels =
     [(''none'', - 1), (''emerg'', 0), (''alert'', 1), (''crit'', 2), (''err'', 3),
      (''warning'', 4), (''notice'', 5), (''info'', 6), (''debug'', 7)]"

definition example_env ::
  "nat \<Rightarrow> (nat \<times> string) list
     \<Rightarrow> ((ContextInfo_t \<Rightarrow> ContextInfo_t \<Rightarrow> int) \<Rightarrow> ContextInfo_t list \<Rightarrow> ContextInfo_t list)
     \<Rightarrow> (PmLogContext \<Rightarrow> PmLogErr) \<Rightarrow> env" where
  "example_env maxc registry sorter setlevel = \<lparr>
     PMLOG_MAX_NUM_CONTEXTS = maxc,
     PmLogGetNumContexts = (kPmLogErr_None, int (length registry)),
     PmLogGetIndContext =
       (\<lambda>i. if 0 \<le> i \<and> i < int (length registry)
            then (kPmLogErr_None, Some (fst (registry ! nat i)))
            else (kPmLogErr_Other 1, None)),
     PmLogGetContextName =
       (\<lambda>c. case c of
              None \<Rightarrow> (kPmLogErr_Other 2, [])
            | Some h \<Rightarrow>
                (case map_of registry h of
                   None \<Rightarrow> (kPmLogErr_Other 2, [])
                 | Some nm \<Rightarrow> (kPmLogErr_None, nm))),
     PmLogFindContext =
       (\<lambda>nm. case map_of (map (\<lambda>(h, n). (n, h)) registry) nm of
               None \<Rightarrow> (kPmLogErr_Other 3, None)
             | Some h \<Rightarrow> (kPmLogErr_None, Some h)),
     PmLogGetContext = (\<lambda>nm. (kPmLogErr_None, Some (length registry + 1))),
     PmLogSetContextLevel = (\<lambda>c l. setlevel c),
     PmLogStringToLevel = map_of example_levels,
     PmLogLevelToString = map_of (map (\<lambda>(s, n). (n, s)) example_levels),
     PmLogPrint = (\<lambda>c l m. kPmLogErr_None),
     PmLogString = (\<lambda>c l i k m. kPmLogErr_None),
     PmLogInfo = (\<lambda>c i m. kPmLogErr_None),
     enabledLevel = (\<lambda>h. 6),
     kPmLogGlobalContext = Some 0,
     fmt_PmLogErr = (\<lambda>e. ''0x00000001 (error)''),
     qsort = sorter,
     malloc_ok = True,
     fopen_kmsg = None,
     fprintf_kmsg = (\<lambda>s. None),
     DoCmdView = (\<lambda>s a. (RESULT_OK, []))
   \<rparr>"

text \<open>The registry of the scenario of the specification (section 8), in an order that
  is not the sorted one.\<close>

definition registry0 :: "(nat \<times> string) list" where
  "registry0 = [(1, ''ui''), (2, ''network.wifi''), (3, ''network'')]"

definition env0 :: env where
  "env0 = example_env 4 registry0 isort_by (\<lambda>c. kPmLogErr_None)"

text \<open>The same registry with room for fewer contexts than it holds (\<open>env_small\<close>) and
  with exactly one slot more than \<open>PMLOG_MAX_NUM_CONTEXTS\<close> (\<open>env_full\<close>).\<close>

definition env_small :: env where
  "env_small = example_env 1 registry0 isort_by (\<lambda>c. kPmLogErr_None)"

definition env_full :: env where
  "env_full = example_env 2 registry0 isort_by (\<lambda>c. kPmLogErr_None)"



definition no_entry :: ContextInfo_t where
  "no_entry = \<lparr>context_ptr = None, contextName = []\<rparr>"

definition snapshot0 :: ContextsInfo_t where
  "snapshot0 =
     \<lparr>numContexts = 3,
      contextInfos =
        [\<lparr>context_ptr = Some 3, contextName = ''network''\<rparr>,
         \<lparr>context_ptr = Some 2, contextName = ''network.wifi''\<rparr>,
         \<lparr>context_ptr = Some 1, contextName = ''ui''\<rparr>,
         no_entry, no_entry]\<rparr>"


definition snapshot_full :: ContextsInfo_t where
  "snapshot_full =
     \<lparr>numContexts = 3,
      contextInfos =
        [\<lparr>context_ptr = Some 3, contextName = ''network''\<rparr>,
         \<lparr>context_ptr = Some 2, contextName = ''network.wifi''\<rparr>,
         \<lparr>context_ptr = Some 1, contextName = ''ui''\<rparr>]\<rparr>"


text \<open>An environment in which setting the level of the context with handle 2 fails.\<close>

definition env_setfail :: env where
  "env_setfail =
     example_env 4 registry0 isort_by
       (\<lambda>c. if c = Some 2 then kPmLogErr_Other 7 else kPmLogErr_None)"

section \<open>Properties of the string functions\<close>

lemma bytes_cmp_eq_0: "bytes_cmp a b = 0 \<longleftrightarrow> a = b"
proof (induction a b rule: bytes_cmp.induct)
  case (4 a as b bs)
  have "(of_char a :: int) = of_char b \<longleftrightarrow> a = b"
    by (metis of_char_of char_of_char)
  with 4 show ?case by auto
qed simp_all

lemma strcmp_eq_0: "strcmp a b = 0 \<longleftrightarrow> cstr a = cstr b"
  by (simp add: strcmp_def bytes_cmp_eq_0)

lemma memcmp_eq_0: "memcmp a b n = 0 \<longleftrightarrow> take n a = take n b"
  by (simp add: memcmp_def bytes_cmp_eq_0)

lemma first_index_takeWhile: "first_index c xs = length (takeWhile (\<lambda>x. x \<noteq> c) xs)"
  by (induction xs) auto

lemma cstr_to_cbuf: "NUL \<notin> set s \<Longrightarrow> cstr (to_cbuf s) = s"
proof -
  assume "NUL \<notin> set s"
  then have "takeWhile (\<lambda>c. c \<noteq> NUL) (s @ [NUL]) = s @ takeWhile (\<lambda>c. c \<noteq> NUL) [NUL]"
    by (intro takeWhile_append2) auto
  then show ?thesis by (simp add: cstr_def to_cbuf_def)
qed

lemma take_cstr_eq:
  assumes "length q = k" and "NUL \<notin> set q"
  shows "take k b = q \<longleftrightarrow> take k (cstr b) = q"
proof
  assume h: "take k b = q"
  then have "\<forall>x \<in> set (take k b). x \<noteq> NUL" using assms by auto
  then have "takeWhile (\<lambda>c. c \<noteq> NUL) (take k b @ drop k b) = take k b @ takeWhile (\<lambda>c. c \<noteq> NUL) (drop k b)"
    by (intro takeWhile_append2) auto
  then have "cstr b = take k b @ takeWhile (\<lambda>c. c \<noteq> NUL) (drop k b)"
    by (simp add: cstr_def)
  moreover have "length (take k b) = k" using h assms by simp
  ultimately show "take k (cstr b) = q" using h by simp
next
  assume h: "take k (cstr b) = q"
  have "cstr b @ dropWhile (\<lambda>c. c \<noteq> NUL) b = b"
    by (simp add: cstr_def)
  moreover have kl: "k \<le> length (cstr b)"
  proof -
    have "length (take k (cstr b)) = k" using h assms by simp
    then show ?thesis by (simp add: min_def split: if_splits)
  qed
  ultimately have "take k b = take k (cstr b @ dropWhile (\<lambda>c. c \<noteq> NUL) b)"
    by simp
  then have "take k b = take k (cstr b)"
    using kl by simp
  with h show "take k b = q" by simp
qed

lemma take_prefix_cstr:
  assumes "k \<le> length (cstr p)"
  shows "take k p = take k (cstr p)"
    and "NUL \<notin> set (take k (cstr p))"
    and "length (take k (cstr p)) = k"
proof -
  have "cstr p @ dropWhile (\<lambda>c. c \<noteq> NUL) p = p"
    by (simp add: cstr_def)
  then have "take k p = take k (cstr p @ dropWhile (\<lambda>c. c \<noteq> NUL) p)" by simp
  then show "take k p = take k (cstr p)" using assms by simp
  have "NUL \<notin> set (cstr p)"
    unfolding cstr_def by (metis (mono_tags, lifting) set_takeWhileD)
  then show "NUL \<notin> set (take k (cstr p))"
    by (meson in_set_takeD)
  show "length (take k (cstr p)) = k" using assms by simp
qed

section \<open>The matcher against its reference definition\<close>

lemma PrvMatchContextName_Matches:
  "PrvMatchContextName candidate matchContextName
     = Matches (cstr candidate) (map_option cstr matchContextName)"
proof (cases matchContextName)
  case None
  then show ?thesis by (simp add: PrvMatchContextName_def Matches_def)
next
  case (Some p)
  show ?thesis
  proof (cases "CHR ''*'' \<in> set (cstr p)")
    case False
    then show ?thesis
      using Some by (simp add: PrvMatchContextName_def Matches_def strchr_def strcmp_eq_0)
  next
    case True
    define k where "k = first_index (CHR ''*'') (cstr p)"
    have kl: "k \<le> length (cstr p)"
      by (simp add: k_def first_index_takeWhile length_takeWhile_le)
    have sc: "strchr p (CHR ''*'') = Some k"
      using True by (simp add: strchr_def k_def first_index_takeWhile)
    have "memcmp candidate p k = 0 \<longleftrightarrow> take k candidate = take k (cstr p)"
      using take_prefix_cstr(1)[OF kl] by (simp add: memcmp_eq_0)
    also have "\<dots> \<longleftrightarrow> take k (cstr candidate) = take k (cstr p)"
      using take_cstr_eq[OF take_prefix_cstr(3)[OF kl] take_prefix_cstr(2)[OF kl]] .
    finally have m: "memcmp candidate p k = 0 \<longleftrightarrow> take k (cstr candidate) = take k (cstr p)" .
    show ?thesis
      using Some True sc m by (auto simp add: PrvMatchContextName_def Matches_def k_def[symmetric])
  qed
qed

lemma Matches_after_star:
  assumes "CHR ''*'' \<notin> set pre"
  shows "Matches n (Some (pre @ CHR ''*'' # rest)) = (take (length pre) n = pre)"
proof -
  have "first_index (CHR ''*'') (pre @ CHR ''*'' # rest) = length pre"
    using assms by (induction pre) auto
  then show ?thesis by (simp add: Matches_def)
qed

lemma cstr_append_star:
  assumes "NUL \<notin> set pre"
  shows "\<exists>r. cstr (pre @ CHR ''*'' # rest) = pre @ CHR ''*'' # r"
proof -
  have "takeWhile (\<lambda>c. c \<noteq> NUL) (pre @ CHR ''*'' # rest)
          = pre @ takeWhile (\<lambda>c. c \<noteq> NUL) (CHR ''*'' # rest)"
    using assms by (intro takeWhile_append2) auto
  then show ?thesis by (simp add: cstr_def NUL_def)
qed

text \<open>
  Claim C1. For every candidate buffer and every pattern (NULL or a buffer), the
  matcher \<open>PrvMatchContextName\<close> returns what the reference definition \<open>Matches\<close>
  of the specification returns on the strings the two buffers hold: true for the
  NULL pattern; string equality when the pattern has no \<open>*\<close>; equality of the
  first \<open>k\<close> bytes when the first \<open>*\<close> is at offset \<open>k\<close>. What follows the first
  \<open>*\<close> (further wildcards included) does not change the result.
\<close>

theorem PrvMatchContextName_reference:
  "PrvMatchContextName candidate matchContextName
     = Matches (cstr candidate) (map_option cstr matchContextName)
   \<and> (CHR ''*'' \<notin> set pre \<and> NUL \<notin> set pre \<longrightarrow>
        PrvMatchContextName candidate (Some (pre @ CHR ''*'' # rest))
          = PrvMatchContextName candidate (Some (pre @ CHR ''*'' # rest')))"
proof (intro conjI impI)
  show "PrvMatchContextName candidate matchContextName
     = Matches (cstr candidate) (map_option cstr matchContextName)"
    by (rule PrvMatchContextName_Matches)
next
  assume h: "CHR ''*'' \<notin> set pre \<and> NUL \<notin> set pre"
  obtain r where r: "cstr (pre @ CHR ''*'' # rest) = pre @ CHR ''*'' # r"
    using cstr_append_star h by blast
  obtain r' where r': "cstr (pre @ CHR ''*'' # rest') = pre @ CHR ''*'' # r'"
    using cstr_append_star h by blast
  show "PrvMatchContextName candidate (Some (pre @ CHR ''*'' # rest))
          = PrvMatchContextName candidate (Some (pre @ CHR ''*'' # rest'))"
    using h by (simp add: PrvMatchContextName_Matches r r' Matches_after_star)
qed

theorem PrvMatchContextName_reference_witness:
  "PrvMatchContextName (to_cbuf ''network.wifi'') (Some (to_cbuf ''net*''))
     = Matches ''network.wifi'' (Some ''net*'')
   \<and> PrvMatchContextName (to_cbuf ''network.wifi'') (Some (''net'' @ CHR ''*'' # to_cbuf ''a*b''))
     = PrvMatchContextName (to_cbuf ''network.wifi'') (Some (''net'' @ CHR ''*'' # to_cbuf []))"
  using PrvMatchContextName_reference
          [of "to_cbuf ''network.wifi''" "Some (to_cbuf ''net*'')" "''net''" "to_cbuf ''a*b''" "to_cbuf []"]
  by (simp add: cstr_def to_cbuf_def NUL_def)

section \<open>The lister\<close>

lemma loop_unfold:
  "PrvGetContextList_loop env m n i cs =
     (if i < n then
        (if numContexts cs \<ge> 0 \<and> numContexts cs < int (PMLOG_MAX_NUM_CONTEXTS env) + 1 then
           (case fetch env i of
              Inl e \<Rightarrow> Inl e
            | Inr ci \<Rightarrow>
                if \<not> keeps m ci
                then PrvGetContextList_loop env m n (i + 1)
                       (cs\<lparr>contextInfos := (contextInfos cs)[nat (numContexts cs) := ci]\<rparr>)
                else PrvGetContextList_loop env m n (i + 1)
                       (cs\<lparr>contextInfos := (contextInfos cs)[nat (numContexts cs) := ci],
                           numContexts := numContexts cs + 1\<rparr>))
         else Inl kPmLogErr_Unknown)
      else Inr cs)"
  by (subst PrvGetContextList_loop.simps)
     (auto simp: fetch_def keeps_def Let_def split: prod.splits)

lemma matching_step:
  "i < n \<Longrightarrow> matching env m i n
     = (if keeps m (projr (fetch env i)) then [projr (fetch env i)] else []) @ matching env m (i + 1) n"
  by (simp add: matching_def upto_rec1[of i "n - 1"])

lemma matching_empty: "\<not> i < n \<Longrightarrow> matching env m i n = []"
  by (simp add: matching_def)

lemma loop_Inr:
  assumes "PrvGetContextList_loop env m n i cs = Inr cs'"
    and "0 \<le> numContexts cs"
    and "numContexts cs \<le> int (PMLOG_MAX_NUM_CONTEXTS env) + 1"
    and "length (contextInfos cs) = PMLOG_MAX_NUM_CONTEXTS env + 1"
  shows "retained cs' = retained cs @ matching env m i n
       \<and> numContexts cs' = numContexts cs + int (length (matching env m i n))
       \<and> numContexts cs' \<le> int (PMLOG_MAX_NUM_CONTEXTS env) + 1
       \<and> length (contextInfos cs') = PMLOG_MAX_NUM_CONTEXTS env + 1
       \<and> (\<forall>j. i \<le> j \<and> j < n \<longrightarrow> isl (fetch env j) = False)"
  using assms
proof (induction "nat (n - i)" arbitrary: i cs)
  case 0
  then have "\<not> i < n" by simp
  with "0.prems" show ?case
    by (subst (asm) loop_unfold) (auto simp add: matching_empty)
next
  case (Suc k)
  then have lt: "i < n" and k: "k = nat (n - (i + 1))" by auto
  from Suc.prems(1) lt have guard: "numContexts cs < int (PMLOG_MAX_NUM_CONTEXTS env) + 1"
    by (subst (asm) loop_unfold) (auto split: if_splits)
  from Suc.prems(1) lt guard Suc.prems(2) obtain ci where ci: "fetch env i = Inr ci"
    by (subst (asm) loop_unfold) (auto split: if_splits sum.splits)
  define slot where "slot = nat (numContexts cs)"
  have slot_lt: "slot < length (contextInfos cs)"
    using guard Suc.prems by (simp add: slot_def)
  have rest_ok: "(\<forall>j. i + 1 \<le> j \<and> j < n \<longrightarrow> isl (fetch env j) = False)
         \<Longrightarrow> (\<forall>j. i \<le> j \<and> j < n \<longrightarrow> isl (fetch env j) = False)"
  proof (intro allI impI)
    fix j assume a: "\<forall>j. i + 1 \<le> j \<and> j < n \<longrightarrow> isl (fetch env j) = False" and "i \<le> j \<and> j < n"
    then have "j = i \<or> (i + 1 \<le> j \<and> j < n)" by auto
    then show "isl (fetch env j) = False" using a ci by auto
  qed
  show ?case
  proof (cases "keeps m ci")
    case False
    define cs1 where "cs1 = cs\<lparr>contextInfos := (contextInfos cs)[nat (numContexts cs) := ci]\<rparr>"
    have call: "PrvGetContextList_loop env m n (i + 1) cs1 = Inr cs'"
      using Suc.prems(1) lt guard Suc.prems(2) ci False
      by (subst (asm) loop_unfold) (simp add: cs1_def)
    have IH: "retained cs' = retained cs1 @ matching env m (i + 1) n
       \<and> numContexts cs' = numContexts cs1 + int (length (matching env m (i + 1) n))
       \<and> numContexts cs' \<le> int (PMLOG_MAX_NUM_CONTEXTS env) + 1
       \<and> length (contextInfos cs') = PMLOG_MAX_NUM_CONTEXTS env + 1
       \<and> (\<forall>j. i + 1 \<le> j \<and> j < n \<longrightarrow> isl (fetch env j) = False)"
      using Suc.hyps(1)[OF k call] Suc.prems by (simp add: cs1_def)
    have r1: "retained cs1 = retained cs"
      by (simp add: retained_def cs1_def)
    show ?thesis
      using IH r1 False ci lt rest_ok by (simp add: matching_step cs1_def)
  next
    case True
    define cs1 where "cs1 = cs\<lparr>contextInfos := (contextInfos cs)[nat (numContexts cs) := ci],
                         numContexts := numContexts cs + 1\<rparr>"
    have call: "PrvGetContextList_loop env m n (i + 1) cs1 = Inr cs'"
      using Suc.prems(1) lt guard Suc.prems(2) ci True
      by (subst (asm) loop_unfold) (simp add: cs1_def)
    have IH: "retained cs' = retained cs1 @ matching env m (i + 1) n
       \<and> numContexts cs' = numContexts cs1 + int (length (matching env m (i + 1) n))
       \<and> numContexts cs' \<le> int (PMLOG_MAX_NUM_CONTEXTS env) + 1
       \<and> length (contextInfos cs') = PMLOG_MAX_NUM_CONTEXTS env + 1
       \<and> (\<forall>j. i + 1 \<le> j \<and> j < n \<longrightarrow> isl (fetch env j) = False)"
      using Suc.hyps(1)[OF k call] Suc.prems guard by (simp add: cs1_def)
    have r1: "retained cs1 = retained cs @ [ci]"
      using slot_lt Suc.prems(2)
      by (simp add: retained_def cs1_def slot_def nat_add_distrib take_Suc_conv_app_nth)
    show ?thesis
      using IH r1 True ci lt rest_ok by (simp add: matching_step cs1_def)
  qed
qed


lemma loop_Inl:
  assumes "PrvGetContextList_loop env m n i cs = Inl e"
    and "\<forall>j. i \<le> j \<and> j < n \<longrightarrow> isl (fetch env j) = False"
  shows "e = kPmLogErr_Unknown"
  using assms
proof (induction "nat (n - i)" arbitrary: i cs)
  case 0
  then have "\<not> i < n" by simp
  with "0.prems" show ?case
    by (subst (asm) loop_unfold) auto
next
  case (Suc k)
  then have lt: "i < n" and k: "k = nat (n - (i + 1))" by auto
  obtain ci where ci: "fetch env i = Inr ci"
    using Suc.prems(2) lt by (cases "fetch env i") auto
  have rest: "\<forall>j. i + 1 \<le> j \<and> j < n \<longrightarrow> isl (fetch env j) = False"
    using Suc.prems(2) by auto
  from Suc.prems(1) lt ci show ?case
    apply (subst (asm) loop_unfold)
    apply (simp split: if_splits)
    using Suc.hyps(1)[OF k _ rest] apply blast+
    done
qed

lemma all_fetched_iff:
  "all_fetched env
     \<longleftrightarrow> (\<forall>j. 0 \<le> j \<and> j < snd (PmLogGetNumContexts env) \<longrightarrow> isl (fetch env j) = False)"
  by (auto simp: all_fetched_def list_all_iff)

lemma qsort_contract_length:
  "qsort_contract env \<Longrightarrow> length (qsort env SortCmpContextInfoByName xs) = length xs"
  by (metis qsort_contract_def size_mset)

lemma PrvGetContextList_Inr:
  assumes "PrvGetContextList env m = Inr cs"
  shows "fst (PmLogGetNumContexts env) = kPmLogErr_None
       \<and> 0 < snd (PmLogGetNumContexts env)
       \<and> all_fetched env
       \<and> numContexts cs = int (length (matching env m 0 (snd (PmLogGetNumContexts env))))
       \<and> numContexts cs \<le> int (PMLOG_MAX_NUM_CONTEXTS env) + 1
       \<and> (qsort_contract env \<longrightarrow>
            retained cs = (if numContexts cs > 0
                           then qsort env SortCmpContextInfoByName
                                  (matching env m 0 (snd (PmLogGetNumContexts env)))
                           else []))"
proof -
  obtain e n where gn: "PmLogGetNumContexts env = (e, n)" by (cases "PmLogGetNumContexts env")
  define cs0 where "cs0 = \<lparr>numContexts = 0,
            contextInfos = replicate (PMLOG_MAX_NUM_CONTEXTS env + 1) \<lparr>context_ptr = None, contextName = []\<rparr>\<rparr>"
  from assms gn have e: "e = kPmLogErr_None" and n: "0 < n"
    by (auto simp: PrvGetContextList_def Let_def split: if_splits)
  from assms gn e n obtain cs1 where
    l: "PrvGetContextList_loop env m n 0 cs0 = Inr cs1"
    and fin: "cs = (if numContexts cs1 > 0
                 then cs1\<lparr>contextInfos := qsort env SortCmpContextInfoByName (retained cs1)
                         @ drop (nat (numContexts cs1)) (contextInfos cs1)\<rparr>
                 else cs1)"
    by (auto simp: PrvGetContextList_def Let_def cs0_def retained_def split: if_splits sum.splits)
  have inv: "retained cs1 = retained cs0 @ matching env m 0 n
       \<and> numContexts cs1 = numContexts cs0 + int (length (matching env m 0 n))
       \<and> numContexts cs1 \<le> int (PMLOG_MAX_NUM_CONTEXTS env) + 1
       \<and> length (contextInfos cs1) = PMLOG_MAX_NUM_CONTEXTS env + 1
       \<and> (\<forall>j. 0 \<le> j \<and> j < n \<longrightarrow> isl (fetch env j) = False)"
    by (rule loop_Inr[OF l]) (simp_all add: cs0_def)
  have r0: "retained cs0 = []" by (simp add: retained_def cs0_def)
  have nc: "numContexts cs = numContexts cs1" using fin by (simp split: if_splits)
  have n0: "numContexts cs0 = 0" by (simp add: cs0_def)
  have r1: "retained cs1 = matching env m 0 n" using inv r0 by simp
  have nc1: "numContexts cs1 = int (length (matching env m 0 n))" using inv n0 by simp
  have ret: "retained cs = (if numContexts cs > 0
                           then qsort env SortCmpContextInfoByName (matching env m 0 n)
                           else [])" if c: "qsort_contract env"
  proof (cases "numContexts cs1 > 0")
    case True
    then have "cs = cs1\<lparr>contextInfos := qsort env SortCmpContextInfoByName (matching env m 0 n)
                         @ drop (nat (numContexts cs1)) (contextInfos cs1)\<rparr>"
      using fin r1 by simp
    then have "retained cs = take (length (matching env m 0 n))
                 (qsort env SortCmpContextInfoByName (matching env m 0 n)
                         @ drop (nat (numContexts cs1)) (contextInfos cs1))"
      using nc1 by (simp add: retained_def)
    then show ?thesis
      using True nc qsort_contract_length[OF c, of "matching env m 0 n"] by simp
  next
    case False
    then show ?thesis using fin nc1 nc by (simp add: retained_def)
  qed
  show ?thesis
    using inv nc nc1 gn e n ret by (simp add: all_fetched_iff)
qed

lemma PrvGetContextList_Inl:
  assumes "PrvGetContextList env m = Inl e"
    and "fst (PmLogGetNumContexts env) = kPmLogErr_None" and "all_fetched env"
  shows "e = kPmLogErr_Unknown"
proof -
  obtain e' n where gn: "PmLogGetNumContexts env = (e', n)" by (cases "PmLogGetNumContexts env")
  show ?thesis
  proof (cases "n \<le> 0")
    case True
    then show ?thesis using assms gn by (simp add: PrvGetContextList_def Let_def)
  next
    case False
    then obtain cs0 where "PrvGetContextList_loop env m n 0 cs0 = Inl e"
      using assms gn by (auto simp: PrvGetContextList_def Let_def split: sum.splits if_splits)
    then show ?thesis
      using loop_Inl assms(3) gn by (simp add: all_fetched_iff)
  qed
qed
lemma of_char_int_eq: "((of_char a :: int) = of_char b) \<longleftrightarrow> a = b"
  by (metis char_of_char)

lemma bytes_cmp_refl: "bytes_cmp a a = 0"
  by (induction a) auto

lemma bytes_cmp_total: "bytes_cmp a b \<le> 0 \<or> bytes_cmp b a \<le> 0"
  by (induction a b rule: bytes_cmp.induct) auto

lemma bytes_cmp_trans:
  "bytes_cmp a b \<le> 0 \<Longrightarrow> bytes_cmp b c \<le> 0 \<Longrightarrow> bytes_cmp a c \<le> 0"
proof (induction a arbitrary: b c)
  case Nil
  then show ?case by (cases c) auto
next
  case (Cons x xs)
  then obtain y ys where b: "b = y # ys" by (cases b) auto
  with Cons.prems obtain z zs where c: "c = z # zs" by (cases c) auto
  show ?case
    using Cons.prems Cons.IH[of ys zs] unfolding b c
    by (auto simp: of_char_int_eq split: if_splits)
qed

lemma SortCmp_total:
  "SortCmpContextInfoByName a b \<le> 0 \<or> SortCmpContextInfoByName b a \<le> 0"
  by (simp add: SortCmpContextInfoByName_def strcasecmp_def bytes_cmp_total)

lemma SortCmp_trans:
  "SortCmpContextInfoByName a b \<le> 0 \<Longrightarrow> SortCmpContextInfoByName b c \<le> 0
     \<Longrightarrow> SortCmpContextInfoByName a c \<le> 0"
  unfolding SortCmpContextInfoByName_def strcasecmp_def by (rule bytes_cmp_trans)

lemma mset_insert_by: "mset (insert_by cmp x ys) = add_mset x (mset ys)"
  by (induction ys) auto

lemma set_insert_by: "set (insert_by cmp x ys) = insert x (set ys)"
  by (induction ys) auto

lemma sorted_insert_by:
  assumes tot: "\<And>a b. cmp a b \<le> 0 \<or> cmp b a \<le> 0"
    and tr: "\<And>a b c. cmp a b \<le> 0 \<Longrightarrow> cmp b c \<le> 0 \<Longrightarrow> cmp a c \<le> (0::int)"
  shows "sorted_wrt (\<lambda>a b. cmp a b \<le> 0) ys \<Longrightarrow> sorted_wrt (\<lambda>a b. cmp a b \<le> 0) (insert_by cmp x ys)"
proof (induction ys)
  case Nil
  then show ?case by simp
next
  case (Cons y ys)
  show ?case
  proof (cases "cmp x y \<le> 0")
    case True
    then show ?thesis using Cons.prems tr by auto
  next
    case False
    then have "cmp y x \<le> 0" using tot by blast
    then show ?thesis using Cons False by (auto simp: set_insert_by)
  qed
qed

lemma isort_by_contract:
  assumes tot: "\<And>a b. cmp a b \<le> 0 \<or> cmp b a \<le> 0"
    and tr: "\<And>a b c. cmp a b \<le> 0 \<Longrightarrow> cmp b c \<le> 0 \<Longrightarrow> cmp a c \<le> (0::int)"
  shows "mset (isort_by cmp xs) = mset xs \<and> sorted_wrt (\<lambda>a b. cmp a b \<le> 0) (isort_by cmp xs)"
proof (induction xs)
  case Nil
  then show ?case by (simp add: isort_by_def)
next
  case (Cons x xs)
  then show ?case
    using sorted_insert_by[of cmp "foldr (insert_by cmp) xs []" x, OF tot tr]
    by (simp add: isort_by_def mset_insert_by)
qed

lemma qsort_contract_isort: "qsort_contract (example_env maxc registry isort_by setlevel)"
  unfolding qsort_contract_def
  using isort_by_contract[of SortCmpContextInfoByName, OF SortCmp_total SortCmp_trans]
  by (simp add: example_env_def)



text \<open>
  Claim C4, as the code has it. A snapshot returned by \<open>PrvGetContextList\<close> has a
  count between 0 and \<open>PMLOG_MAX_NUM_CONTEXTS + 1\<close>, the number of slots of the
  array, and the count is the number of matching registry entries: none is dropped.
  When the count query and every fetch succeed and more than
  \<open>PMLOG_MAX_NUM_CONTEXTS + 1\<close> entries match, the listing fails with
  \<open>kPmLogErr_Unknown\<close>.
\<close>

theorem PrvGetContextList_count:
  "(PrvGetContextList env m = Inr cs \<longrightarrow>
      0 \<le> numContexts cs
      \<and> numContexts cs \<le> int (PMLOG_MAX_NUM_CONTEXTS env) + 1
      \<and> numContexts cs = int (length (matching env m 0 (snd (PmLogGetNumContexts env)))))
   \<and> (fst (PmLogGetNumContexts env) = kPmLogErr_None \<and> all_fetched env
        \<and> int (PMLOG_MAX_NUM_CONTEXTS env) + 1
            < int (length (matching env m 0 (snd (PmLogGetNumContexts env))))
      \<longrightarrow> PrvGetContextList env m = Inl kPmLogErr_Unknown)"
proof (intro conjI impI)
  assume a: "PrvGetContextList env m = Inr cs"
  show "0 \<le> numContexts cs" using PrvGetContextList_Inr[OF a] by simp
  show "numContexts cs \<le> int (PMLOG_MAX_NUM_CONTEXTS env) + 1"
    using PrvGetContextList_Inr[OF a] by simp
  show "numContexts cs = int (length (matching env m 0 (snd (PmLogGetNumContexts env))))"
    using PrvGetContextList_Inr[OF a] by simp
next
  assume b: "fst (PmLogGetNumContexts env) = kPmLogErr_None \<and> all_fetched env
        \<and> int (PMLOG_MAX_NUM_CONTEXTS env) + 1
            < int (length (matching env m 0 (snd (PmLogGetNumContexts env))))"
  show "PrvGetContextList env m = Inl kPmLogErr_Unknown"
  proof (cases "PrvGetContextList env m")
    case (Inl e)
    then show ?thesis using PrvGetContextList_Inl[OF Inl] b by simp
  next
    case (Inr cs')
    then show ?thesis using PrvGetContextList_Inr[OF Inr] b by simp
  qed
qed

theorem PrvGetContextList_count_witness:
  "PrvGetContextList env0 None = Inr snapshot0
   \<and> 0 \<le> numContexts snapshot0
   \<and> numContexts snapshot0 \<le> int (PMLOG_MAX_NUM_CONTEXTS env0) + 1
   \<and> numContexts snapshot0 = int (length (matching env0 None 0 (snd (PmLogGetNumContexts env0))))
   \<and> fst (PmLogGetNumContexts env_small) = kPmLogErr_None
   \<and> all_fetched env_small
   \<and> int (PMLOG_MAX_NUM_CONTEXTS env_small) + 1
        < int (length (matching env_small None 0 (snd (PmLogGetNumContexts env_small))))
   \<and> PrvGetContextList env_small None = Inl kPmLogErr_Unknown"
proof -
  have a: "PrvGetContextList env0 None = Inr snapshot0"
    by code_simp
  have b1: "fst (PmLogGetNumContexts env_small) = kPmLogErr_None"
    by code_simp
  have b2: "all_fetched env_small"
    by code_simp
  have b3: "int (PMLOG_MAX_NUM_CONTEXTS env_small) + 1
        < int (length (matching env_small None 0 (snd (PmLogGetNumContexts env_small))))"
    by code_simp
  show ?thesis
    using PrvGetContextList_count[of env0 None snapshot0]
          PrvGetContextList_count[of env_small None snapshot0] a b1 b2 b3
    by blast
qed

text \<open>
  The claim as stated bounds the count by \<open>PMLOG_MAX_NUM_CONTEXTS\<close>. With a
  maximum of 2 and three registered contexts the listing succeeds with a count of 3.
\<close>

theorem PrvGetContextList_count_counterexample:
  "PrvGetContextList env_full None = Inr snapshot_full
   \<and> \<not> numContexts snapshot_full \<le> int (PMLOG_MAX_NUM_CONTEXTS env_full)"
  by code_simp






section \<open>The command \<open>set\<close>\<close>

lemma DoCmdSet_loop_step:
  "DoCmdSet_loop env flag_silence level (e # es) =
     (if PmLogSetContextLevel env (context_ptr e) level \<noteq> kPmLogErr_None
      then (RESULT_RUN_ERR,
            set_step env flag_silence level e
            @ ErrPrint flag_silence
                (''Error setting context log level: ''
                 @ fmt_PmLogErr env (PmLogSetContextLevel env (context_ptr e) level)
                 @ ''\<newline>''))
      else (case DoCmdSet_loop env flag_silence level es of
              (r, out') \<Rightarrow> (r, set_step env flag_silence level e @ out')))"
  by (simp add: set_step_def Let_def)

lemma DoCmdSet_loop_ok:
  "\<forall>e \<in> set es. PmLogSetContextLevel env (context_ptr e) level = kPmLogErr_None
   \<Longrightarrow> DoCmdSet_loop env flag_silence level es
         = (RESULT_OK, concat (map (set_step env flag_silence level) es))"
  by (induction es) (auto simp: DoCmdSet_loop_step simp del: DoCmdSet_loop.simps(2))

lemma DoCmdSet_loop_fail:
  assumes "i < length es"
    and "PmLogSetContextLevel env (context_ptr (es ! i)) level \<noteq> kPmLogErr_None"
    and "\<forall>j < i. PmLogSetContextLevel env (context_ptr (es ! j)) level = kPmLogErr_None"
  shows "DoCmdSet_loop env flag_silence level es
         = (RESULT_RUN_ERR,
            concat (map (set_step env flag_silence level) (take (Suc i) es))
            @ ErrPrint flag_silence
                (''Error setting context log level: ''
                 @ fmt_PmLogErr env (PmLogSetContextLevel env (context_ptr (es ! i)) level)
                 @ ''\<newline>''))"
  using assms
proof (induction es arbitrary: i)
  case Nil
  then show ?case by simp
next
  case (Cons e es)
  show ?case
  proof (cases i)
    case 0
    then show ?thesis using Cons.prems by (simp add: DoCmdSet_loop_step del: DoCmdSet_loop.simps(2))
  next
    case (Suc k)
    have e_ok: "PmLogSetContextLevel env (context_ptr e) level = kPmLogErr_None"
      using Cons.prems(3) Suc by auto
    have "DoCmdSet_loop env flag_silence level es
         = (RESULT_RUN_ERR,
            concat (map (set_step env flag_silence level) (take (Suc k) es))
            @ ErrPrint flag_silence
                (''Error setting context log level: ''
                 @ fmt_PmLogErr env (PmLogSetContextLevel env (context_ptr (es ! k)) level)
                 @ ''\<newline>''))"
      using Cons.prems Suc by (intro Cons.IH) auto
    then show ?thesis using e_ok Suc by (simp add: DoCmdSet_loop_step del: DoCmdSet_loop.simps(2))
  qed
qed


lemma DoCmdSet_wildcard_unfold:
  assumes "PrvIsWildcardContextName (to_cbuf (PrvResolveContextNameAlias p))"
    and "PmLogStringToLevel env lvl = Some level"
    and "malloc_ok env"
  shows "DoCmdSet env flag_silence [cmd, p, lvl]
         = (case PrvGetContextList env (Some (to_cbuf (PrvResolveContextNameAlias p))) of
              Inl logErr \<Rightarrow>
                (RESULT_RUN_ERR,
                 ErrPrint flag_silence
                   (''Error getting contexts info: '' @ fmt_PmLogErr env logErr @ ''\<newline>''))
            | Inr infos \<Rightarrow>
                if numContexts infos = 0
                then (RESULT_RUN_ERR,
                      ErrPrint flag_silence
                        (''No contexts matched '' @ quoted (PrvResolveContextNameAlias p) @ ''.\<newline>''))
                else DoCmdSet_loop env flag_silence level (retained infos))"
  using assms by (simp add: DoCmdSet_def Let_def retained_def split: sum.splits)

lemma PrvGetContextList_retained_sorted:
  assumes "qsort_contract env" and "PrvGetContextList env m = Inr cs"
  shows "sorted_wrt (\<lambda>a b. SortCmpContextInfoByName a b \<le> 0) (retained cs)"
proof -
  have r: "retained cs = (if numContexts cs > 0
                           then qsort env SortCmpContextInfoByName
                                  (matching env m 0 (snd (PmLogGetNumContexts env)))
                           else [])"
    using PrvGetContextList_Inr[OF assms(2)] assms(1) by auto
  show ?thesis
    using r assms(1) by (simp add: qsort_contract_def)
qed




text \<open>
  Claim C7. For a pattern with \<open>*\<close>, a valid level and a listing that returns a
  non-empty snapshot, the snapshot is ordered by \<open>strcasecmp\<close> of the names and
  \<open>DoCmdSet\<close> goes through it in that order, one notice and one
  \<open>PmLogSetContextLevel\<close> per entry. When every call succeeds the result is
  \<open>RESULT_OK\<close>; when the call for entry \<open>i\<close> is the first to fail, the entries
  \<open>0..i\<close> have been notified and set, in order, the error is reported, no later entry
  is touched and the result is \<open>RESULT_RUN_ERR\<close>.
\<close>

theorem DoCmdSet_wildcard_in_order:
  assumes "PrvIsWildcardContextName (to_cbuf (PrvResolveContextNameAlias p))"
    and "PmLogStringToLevel env lvl = Some level"
    and "malloc_ok env"
    and "qsort_contract env"
    and "PrvGetContextList env (Some (to_cbuf (PrvResolveContextNameAlias p))) = Inr cs"
    and "numContexts cs \<noteq> 0"
  shows "sorted_wrt (\<lambda>a b. strcasecmp (to_cbuf (contextName a)) (to_cbuf (contextName b)) \<le> 0)
           (retained cs)
       \<and> ((\<forall>e \<in> set (retained cs).
              PmLogSetContextLevel env (context_ptr e) level = kPmLogErr_None)
            \<longrightarrow> DoCmdSet env flag_silence [cmd, p, lvl]
                  = (RESULT_OK, concat (map (set_step env flag_silence level) (retained cs))))
       \<and> (i < length (retained cs)
            \<and> PmLogSetContextLevel env (context_ptr (retained cs ! i)) level \<noteq> kPmLogErr_None
            \<and> (\<forall>j < i. PmLogSetContextLevel env (context_ptr (retained cs ! j)) level
                         = kPmLogErr_None)
            \<longrightarrow> DoCmdSet env flag_silence [cmd, p, lvl]
                  = (RESULT_RUN_ERR,
                     concat (map (set_step env flag_silence level) (take (Suc i) (retained cs)))
                     @ ErrPrint flag_silence
                         (''Error setting context log level: ''
                          @ fmt_PmLogErr env
                              (PmLogSetContextLevel env (context_ptr (retained cs ! i)) level)
                          @ ''\<newline>'')))"
proof -
  have u: "DoCmdSet env flag_silence [cmd, p, lvl]
             = DoCmdSet_loop env flag_silence level (retained cs)"
    using DoCmdSet_wildcard_unfold[OF assms(1-3), of flag_silence cmd] assms(5,6) by simp
  have s: "sorted_wrt (\<lambda>a b. strcasecmp (to_cbuf (contextName a)) (to_cbuf (contextName b)) \<le> 0)
           (retained cs)"
    using PrvGetContextList_retained_sorted[OF assms(4,5)]
    by (simp add: SortCmpContextInfoByName_def)
  show ?thesis
    unfolding u using s DoCmdSet_loop_ok DoCmdSet_loop_fail by blast
qed

theorem DoCmdSet_wildcard_in_order_witness:
  "sorted_wrt (\<lambda>a b. strcasecmp (to_cbuf (contextName a)) (to_cbuf (contextName b)) \<le> 0)
     (retained snapshot0)
   \<and> DoCmdSet env0 False [''set'', ''*'', ''info'']
       = (RESULT_OK,
          [Stdout ''PmLogCtl: Setting context level for 'network'.\<newline>'',
           Call_PmLogSetContextLevel (Some 3) 6,
           Stdout ''PmLogCtl: Setting context level for 'network.wifi'.\<newline>'',
           Call_PmLogSetContextLevel (Some 2) 6,
           Stdout ''PmLogCtl: Setting context level for 'ui'.\<newline>'',
           Call_PmLogSetContextLevel (Some 1) 6])
   \<and> DoCmdSet env_setfail False [''set'', ''*'', ''info'']
       = (RESULT_RUN_ERR,
          [Stdout ''PmLogCtl: Setting context level for 'network'.\<newline>'',
           Call_PmLogSetContextLevel (Some 3) 6,
           Stdout ''PmLogCtl: Setting context level for 'network.wifi'.\<newline>'',
           Call_PmLogSetContextLevel (Some 2) 6,
           Stderr ''PmLogCtl: Error setting context log level: 0x00000001 (error)\<newline>''])"
proof -
  have w: "PrvIsWildcardContextName (to_cbuf (PrvResolveContextNameAlias ''*''))"
    by code_simp
  have l: "PmLogStringToLevel env0 ''info'' = Some 6" "PmLogStringToLevel env_setfail ''info'' = Some 6"
    by code_simp+
  have m: "malloc_ok env0" "malloc_ok env_setfail"
    by code_simp+
  have q: "qsort_contract env0" "qsort_contract env_setfail"
    unfolding env0_def env_setfail_def by (rule qsort_contract_isort)+
  have g: "PrvGetContextList env0 (Some (to_cbuf (PrvResolveContextNameAlias ''*''))) = Inr snapshot0"
    "PrvGetContextList env_setfail (Some (to_cbuf (PrvResolveContextNameAlias ''*'')))
       = Inr snapshot0"
    by code_simp+
  have n: "numContexts snapshot0 \<noteq> 0"
    by code_simp
  have ok: "\<forall>e \<in> set (retained snapshot0).
              PmLogSetContextLevel env0 (context_ptr e) 6 = kPmLogErr_None"
    by code_simp
  have f: "1 < length (retained snapshot0)"
    "PmLogSetContextLevel env_setfail (context_ptr (retained snapshot0 ! 1)) 6 \<noteq> kPmLogErr_None"
    by code_simp+
  have f2: "\<forall>j < 1. PmLogSetContextLevel env_setfail (context_ptr (retained snapshot0 ! j)) 6
                         = kPmLogErr_None"
  proof (intro allI impI)
    fix j :: nat assume "j < 1"
    then have "j = 0" by simp
    moreover have "PmLogSetContextLevel env_setfail (context_ptr (retained snapshot0 ! 0)) 6
                         = kPmLogErr_None"
      by code_simp
    ultimately show "PmLogSetContextLevel env_setfail (context_ptr (retained snapshot0 ! j)) 6
                         = kPmLogErr_None" by simp
  qed
  have t1: "concat (map (set_step env0 False 6) (retained snapshot0))
       = [Stdout ''PmLogCtl: Setting context level for 'network'.\<newline>'',
           Call_PmLogSetContextLevel (Some 3) 6,
           Stdout ''PmLogCtl: Setting context level for 'network.wifi'.\<newline>'',
           Call_PmLogSetContextLevel (Some 2) 6,
           Stdout ''PmLogCtl: Setting context level for 'ui'.\<newline>'',
           Call_PmLogSetContextLevel (Some 1) 6]"
    by code_simp
  have t2: "concat (map (set_step env_setfail False 6) (take (Suc 1) (retained snapshot0)))
                     @ ErrPrint False
                         (''Error setting context log level: ''
                          @ fmt_PmLogErr env_setfail
                              (PmLogSetContextLevel env_setfail (context_ptr (retained snapshot0 ! 1)) 6)
                          @ ''\<newline>'')
       = [Stdout ''PmLogCtl: Setting context level for 'network'.\<newline>'',
           Call_PmLogSetContextLevel (Some 3) 6,
           Stdout ''PmLogCtl: Setting context level for 'network.wifi'.\<newline>'',
           Call_PmLogSetContextLevel (Some 2) 6,
           Stderr ''PmLogCtl: Error setting context log level: 0x00000001 (error)\<newline>'']"
    by code_simp
  show ?thesis
    using DoCmdSet_wildcard_in_order[OF w l(1) m(1) q(1) g(1) n, of False "''set''" 1]
          DoCmdSet_wildcard_in_order[OF w l(2) m(2) q(2) g(2) n, of False "''set''" 1]
          ok f f2
    unfolding t1 t2 by blast
qed

section \<open>The key/value loop, one iteration at a time\<close>

lemma DoCmdLogKV_kv_last:
  "paramIndex + 1 = length argv \<Longrightarrow>
   DoCmdLogKV_kv flag_silence argv paramIndex arg kvPair index result out =
     (if paramIndex = 4
      then (case snprintf_at kvPair 0 kvPair_size ''{}'' of
              Inl c \<Rightarrow> Inl c
            | Inr kvPair \<Rightarrow> Inr (Inr (paramIndex, arg, kvPair, out)))
      else Inr (Inr (paramIndex, arg, kvPair, out)))"
  by (subst DoCmdLogKV_kv.simps) (auto simp: Let_def)

lemma DoCmdLogKV_kv_item:
  assumes "paramIndex + 1 < length argv"
  shows "DoCmdLogKV_kv flag_silence argv paramIndex arg kvPair index result out =
     (case kv_item (paramIndex = length argv - 2) arg kvPair index of
        Inl c \<Rightarrow> Inl c
      | Inr (ok, kvPair, index) \<Rightarrow>
          (let out = (if ok then out
                      else out @ ErrPrint flag_silence
                                   (''key and value pair is wrong : '' @ arg @ ''\<newline>''))
           in
             if \<not> (result \<or> ok) then Inr (Inl (RESULT_PARAM_ERR, out))
             else DoCmdLogKV_kv flag_silence argv (paramIndex + 1) (argv ! (paramIndex + 1))
                    kvPair index (result \<or> ok) out))"
proof -
  have a: "paramIndex < length argv" "paramIndex \<noteq> length argv - 1"
    using assms by auto
  obtain n keyBuffer valueBuffer where sc: "sscanf_kv arg = (n, keyBuffer, valueBuffer)"
    by (cases "sscanf_kv arg")
  show ?thesis
    apply (subst DoCmdLogKV_kv.simps)
    apply (simp only: Let_def a if_True if_False kv_item_def)
    apply (cases "index = 0"; cases "strncat1 kvPair (CHR ''{'')"; cases "paramIndex = length argv - 2";
           simp add: sc split: sum.splits)
    done
qed

section \<open>The flag \<open>-s\<close>\<close>

lemma silenced_simps [simp]:
  "silenced [] = []"
  "silenced (a @ b) = silenced a @ silenced b"
  "silenced (ErrPrint f s) = []"
  "silenced (InfoPrint f s) = []"
  "ErrPrint True s = []"
  "InfoPrint True s = []"
  "silenced (Call_PmLogSetContextLevel c l # out) = Call_PmLogSetContextLevel c l # silenced out"
  "silenced (Call_PmLogGetContext n # out) = Call_PmLogGetContext n # silenced out"
  "silenced (Call_PmLogPrint c l m # out) = Call_PmLogPrint c l m # silenced out"
  "silenced (Call_PmLogString c l i k mo # out) = Call_PmLogString c l i k mo # silenced out"
  "silenced (Call_PmLogInfo c fi fm # out) = Call_PmLogInfo c fi fm # silenced out"
  "silenced (Write_kmsg s # out) = Write_kmsg s # silenced out"
  by (simp_all add: silenced_def ErrPrint_def InfoPrint_def)

lemma silenced_no_print: "list_all (\<lambda>e. \<not> is_print e) (silenced out)"
  by (simp add: silenced_def list_all_iff)

lemma SuggestHelp_silenced: "SuggestHelp True = silenced (SuggestHelp False)"
  by (simp add: SuggestHelp_def)

lemma DoCmdDef_args_silenced:
  "DoCmdDef_args env True args cn lp l
     = map_sum (map_prod id silenced) id (DoCmdDef_args env False args cn lp l)"
  by (induction args arbitrary: cn lp l) (auto simp: Let_def split: prod.splits option.splits)

lemma DoCmdDef_silenced:
  "DoCmdDef env True argv = map_prod id silenced (DoCmdDef env False argv)"
  by (cases "DoCmdDef_args env False (drop 1 argv) None None kLevelNotSpecified")
     (auto simp: DoCmdDef_def DoCmdDef_args_silenced Let_def split: prod.splits option.splits)

lemma DoCmdLog_args_silenced:
  "DoCmdLog_args env True args cn c lp m
     = map_sum (map_prod id silenced) id (DoCmdLog_args env False args cn c lp m)"
  by (induction args arbitrary: cn c lp m) (auto simp: Let_def split: prod.splits option.splits)

lemma DoCmdLog_silenced:
  "DoCmdLog env True argv = map_prod id silenced (DoCmdLog env False argv)"
proof -
  define r where "r = (if length argv = 2
            then DoCmdLog_args env False (drop 1 argv)
                   (Some kPmLogGlobalContextName) (kPmLogGlobalContext env)
                   (Some kPmLogLevel_Notice) None
            else DoCmdLog_args env False (drop 1 argv) None None None None)"
  have t: "(if length argv = 2
            then DoCmdLog_args env True (drop 1 argv)
                   (Some kPmLogGlobalContextName) (kPmLogGlobalContext env)
                   (Some kPmLogLevel_Notice) None
            else DoCmdLog_args env True (drop 1 argv) None None None None)
           = map_sum (map_prod id silenced) id r"
    by (simp add: r_def DoCmdLog_args_silenced)
  show ?thesis
    unfolding DoCmdLog_def t r_def[symmetric]
    by (cases r) (auto simp: Let_def split: option.splits)
qed

lemma DoCmdSet_args_silenced:
  "DoCmdSet_args env True args mn mc lp
     = map_sum (map_prod id silenced) id (DoCmdSet_args env False args mn mc lp)"
  by (induction args arbitrary: mn mc lp) (auto simp: Let_def split: prod.splits option.splits)

lemma DoCmdSet_loop_silenced:
  "DoCmdSet_loop env True level es = map_prod id silenced (DoCmdSet_loop env False level es)"
  by (induction es) (auto simp: Let_def split: prod.splits)

lemma DoCmdSet_silenced:
  "DoCmdSet env True argv = map_prod id silenced (DoCmdSet env False argv)"
  unfolding DoCmdSet_def DoCmdSet_args_silenced DoCmdSet_loop_silenced
  by (auto simp: Let_def split: prod.splits option.splits sum.splits)

lemma DoCmdShow_loop_silenced:
  "DoCmdShow_loop env True es = map_sum id silenced (DoCmdShow_loop env False es)"
  by (induction es) (auto simp: ShowContext_def Let_def split: option.splits sum.splits)

lemma DoCmdShow_silenced:
  "DoCmdShow env True argv = map_sum id (map_prod id silenced) (DoCmdShow env False argv)"
  unfolding DoCmdShow_def DoCmdShow_loop_silenced
  by (auto simp: Let_def split: prod.splits option.splits sum.splits)

lemma WriteKMsg_silenced:
  "WriteKMsg env True p m = map_prod id silenced (WriteKMsg env False p m)"
  by (auto simp: WriteKMsg_def mysprintf_def Let_def split: prod.splits option.splits)

lemma DoCmdKLog_args_silenced:
  "DoCmdKLog_args env True args l m
     = map_sum (map_prod id silenced) id (DoCmdKLog_args env False args l m)"
  by (induction env False args l m rule: DoCmdKLog_args.induct)
     (auto simp: Let_def split: prod.splits option.splits list.splits)

lemma DoCmdKLog_silenced:
  "DoCmdKLog env True argv = map_prod id silenced (DoCmdKLog env False argv)"
  unfolding DoCmdKLog_def DoCmdKLog_args_silenced
  by (auto simp: WriteKMsg_silenced Let_def split: prod.splits option.splits sum.splits)

lemma DoCmdFlush_silenced:
  "DoCmdFlush env True = map_prod id silenced (DoCmdFlush env False)"
  by (auto simp: DoCmdFlush_def Let_def split: prod.splits)

lemma DoCmdReConf_silenced:
  "DoCmdReConf env True argv = map_prod id silenced (DoCmdReConf env False argv)"
  by (auto simp: DoCmdReConf_def Let_def split: list.splits)

lemma silenced_concat_InfoPrint:
  "silenced (concat (map (\<lambda>x. InfoPrint f (g x)) xs)) = []"
  by (induction xs) auto

lemma concat_InfoPrint_True: "concat (map (\<lambda>x. InfoPrint True (g x)) xs) = []"
  by (induction xs) auto

lemma ShowUsage_silenced: "ShowUsage env True = silenced (ShowUsage env False)"
  unfolding ShowUsage_def by (simp add: silenced_concat_InfoPrint concat_InfoPrint_True del: map_append)



lemma DoCmdLogKV_kv_silenced:
  "DoCmdLogKV_kv True argv p arg kv idx res (silenced out)
     = map_sum id (map_sum (map_prod id silenced) (\<lambda>(p, a, k, ev). (p, a, k, silenced ev)))
         (DoCmdLogKV_kv False argv p arg kv idx res out)"
proof (induction "length argv - p" arbitrary: p arg kv idx res out)
  case 0
  then have "\<not> p < length argv" by simp
  then show ?case
    by (subst DoCmdLogKV_kv.simps, subst (2) DoCmdLogKV_kv.simps) (simp add: Let_def)
next
  case (Suc k)
  then have lt: "p < length argv" and k: "k = length argv - (p + 1)" by auto
  note IH = Suc.hyps(1)[OF k]
  show ?case
  proof (cases "p + 1 = length argv")
    case True
    then show ?thesis
      by (simp add: DoCmdLogKV_kv_last split: sum.splits)
  next
    case False
    then have n: "p + 1 < length argv" using lt by simp
    show ?thesis
    proof (cases "kv_item (p = length argv - 2) arg kv idx")
      case (Inl c)
      then show ?thesis by (simp add: DoCmdLogKV_kv_item[OF n])
    next
      case (Inr t)
      then obtain ok kv' idx' where t: "kv_item (p = length argv - 2) arg kv idx = Inr (ok, kv', idx')"
        by (cases t) auto
      show ?thesis
      proof (cases ok)
        case True
        then show ?thesis
          using IH[of "argv ! (p + 1)" kv' idx' True out]
          by (simp add: DoCmdLogKV_kv_item[OF n] t Let_def)
      next
        case False
        then show ?thesis
          using IH[of "argv ! (p + 1)" kv' idx' res "out @ ErrPrint False (''key and value pair is wrong : '' @ arg @ ''\<newline>'')"]
          by (cases res) (simp_all add: DoCmdLogKV_kv_item[OF n] t Let_def)
      qed
    qed
  qed
qed


lemma DoCmdLogKV_loop_silenced:
  "DoCmdLogKV_loop env True argv p cn c lp mid m kv chk (silenced out)
     = map_sum id (map_sum (map_prod id silenced)
                     (\<lambda>(cn, c, lp, mid, m, kv, ev). (cn, c, lp, mid, m, kv, silenced ev)))
         (DoCmdLogKV_loop env False argv p cn c lp mid m kv chk out)"
proof (induction "2 * (length argv - p) + (if chk then 0 else 1 :: nat)"
         arbitrary: p cn c lp mid m kv chk out rule: less_induct)
  case less
  note uT = DoCmdLogKV_loop.simps[of env True argv p cn c lp mid m kv chk "silenced out"]
  note uF = DoCmdLogKV_loop.simps[of env False argv p cn c lp mid m kv chk out]
  show ?case
  proof (cases "p < length argv")
    case False
    then show ?thesis
      by (subst uT, subst uF) simp
  next
    case True
    note lt = True
    have step: "\<And>cn' c' lp' mid' m' kv' chk' out'.
        DoCmdLogKV_loop env True argv (Suc p) cn' c' lp' mid' m' kv' chk' (silenced out')
     = map_sum id (map_sum (map_prod id silenced)
                     (\<lambda>(cn, c, lp, mid, m, kv, ev). (cn, c, lp, mid, m, kv, silenced ev)))
         (DoCmdLogKV_loop env False argv (Suc p) cn' c' lp' mid' m' kv' chk' out')"
      using lt by (intro less) auto
    have kvIH: "(case DoCmdLogKV_kv True argv p (argv ! p) kv 0 False (silenced out) of
                   Inl x \<Rightarrow> Inl x
                 | Inr (Inl r) \<Rightarrow> Inr (Inl r)
                 | Inr (Inr (paramIndex, arg, kvPair, x)) \<Rightarrow>
                     DoCmdLogKV_loop env True argv paramIndex cn c lp mid m
                       (kvPair[kvPair_size - 1 := NUL]) True x)
              = map_sum id (map_sum (map_prod id silenced)
                     (\<lambda>(cn, c, lp, mid, m, kv, ev). (cn, c, lp, mid, m, kv, silenced ev)))
                 (case DoCmdLogKV_kv False argv p (argv ! p) kv 0 False out of
                   Inl x \<Rightarrow> Inl x
                 | Inr (Inl r) \<Rightarrow> Inr (Inl r)
                 | Inr (Inr (paramIndex, arg, kvPair, x)) \<Rightarrow>
                     DoCmdLogKV_loop env False argv paramIndex cn c lp mid m
                       (kvPair[kvPair_size - 1 := NUL]) True x)"
      if nchk: "\<not> chk"
    proof (cases "DoCmdLogKV_kv False argv p (argv ! p) kv 0 False out")
      case (Inl cr)
      then show ?thesis by (simp add: DoCmdLogKV_kv_silenced)
    next
      case (Inr r)
      note r = Inr
      show ?thesis
      proof (cases r)
        case (Inl ret)
        then show ?thesis by (simp add: DoCmdLogKV_kv_silenced r)
      next
        case (Inr st)
        obtain p' arg' kv' out' where st: "st = (p', arg', kv', out')"
          by (cases st) auto
        have ple: "p \<le> p'"
          using DoCmdLogKV_kv_paramIndex r Inr st by blast
        have IH: "DoCmdLogKV_loop env True argv p' cn c lp mid m (kv'[kvPair_size - 1 := NUL]) True (silenced out')
     = map_sum id (map_sum (map_prod id silenced)
                     (\<lambda>(cn, c, lp, mid, m, kv, ev). (cn, c, lp, mid, m, kv, silenced ev)))
         (DoCmdLogKV_loop env False argv p' cn c lp mid m (kv'[kvPair_size - 1 := NUL]) True out')"
          using ple nchk lt by (intro less) auto
        show ?thesis
          using IH by (simp add: DoCmdLogKV_kv_silenced r Inr st)
      qed
    qed
    obtain e c' where f: "PmLogFindContext env (PrvResolveContextNameAlias (argv ! p)) = (e, c')"
      by (cases "PmLogFindContext env (PrvResolveContextNameAlias (argv ! p))")
    show ?thesis
      apply (subst uT, subst uF)
      apply (simp only: lt if_True Let_def f prod.case)
      using kvIH
      apply (cases cn; cases lp; cases mid; cases m; cases chk;
             simp add: step)
      done
  qed
qed

lemma DoCmdLogKV_silenced:
  "DoCmdLogKV env True argv = map_sum id (map_prod id silenced) (DoCmdLogKV env False argv)"
proof -
  have l: "DoCmdLogKV_loop env True argv 1 None None None None None (replicate kvPair_size NUL) False []
     = map_sum id (map_sum (map_prod id silenced)
                     (\<lambda>(cn, c, lp, mid, m, kv, ev). (cn, c, lp, mid, m, kv, silenced ev)))
         (DoCmdLogKV_loop env False argv 1 None None None None None (replicate kvPair_size NUL) False [])"
    using DoCmdLogKV_loop_silenced[of env argv 1 None None None None None "replicate kvPair_size NUL" False "[]"]
    by simp
  show ?thesis
    unfolding DoCmdLogKV_def l
    by (cases "DoCmdLogKV_loop env False argv 1 None None None None None (replicate kvPair_size NUL) False []")
       (auto simp: Let_def split: sum.splits option.splits)
qed

lemma main_dispatch_silenced:
  assumes "strcmp (to_cbuf cmd) (to_cbuf ''view'') \<noteq> 0"
  shows "main_dispatch env True cmd cmd_index
           = map_sum id (map_prod id silenced) (main_dispatch env False cmd cmd_index)"
  using assms
  by (simp add: main_dispatch_def DoCmdDef_silenced DoCmdLog_silenced DoCmdLogKV_silenced
        DoCmdKLog_silenced DoCmdReConf_silenced DoCmdSet_silenced DoCmdShow_silenced
        DoCmdFlush_silenced ShowUsage_silenced)

text \<open>
  Claim C9, as the code has it. \<open>InfoPrint\<close> and \<open>ErrPrint\<close> both test
  \<open>flag_silence\<close>. A run with \<open>-s\<close> before the command (of any command but
  \<open>view\<close>, whose code is not at hand) has the exit status and the library calls of
  the same run without \<open>-s\<close>, and none of its lines on stdout or stderr: the
  informational and the error messages are all suppressed.
\<close>

theorem main_silence:
  assumes "strncmp (to_cbuf s) (to_cbuf ''-s'') 2 = 0"
    and "rest = []
         \<or> (strncmp (to_cbuf (hd rest)) (to_cbuf ''-s'') 2 \<noteq> 0
            \<and> strcmp (to_cbuf (hd rest)) (to_cbuf ''view'') \<noteq> 0)"
  shows "main env (a0 # s # rest) = map_sum id (map_prod id silenced) (main env (a0 # rest))
       \<and> (case main env (a0 # s # rest) of
             Inl c \<Rightarrow> True
           | Inr (status, out) \<Rightarrow> list_all (\<lambda>e. \<not> is_print e) out)"
proof -
  have eq: "main env (a0 # s # rest) = map_sum id (map_prod id silenced) (main env (a0 # rest))"
  proof (cases rest)
    case Nil
    then show ?thesis
      using assms(1) by (simp add: main_def Let_def SuggestHelp_def)
  next
    case (Cons cmd cmd_args)
    then have ns: "strncmp (to_cbuf cmd) (to_cbuf ''-s'') 2 \<noteq> 0"
      and nv: "strcmp (to_cbuf cmd) (to_cbuf ''view'') \<noteq> 0"
      using assms(2) by auto
    show ?thesis
    proof (cases "main_dispatch env False cmd (cmd # cmd_args)")
      case (Inl c)
      then show ?thesis
        using assms(1) ns Cons
        by (simp add: main_def Let_def main_dispatch_silenced[OF nv])
    next
      case (Inr r)
      then show ?thesis
        using assms(1) ns Cons
        by (cases r) (simp add: main_def Let_def main_dispatch_silenced[OF nv] SuggestHelp_silenced)
    qed
  qed
  show ?thesis
    unfolding eq
    by (cases "main env (a0 # rest)") (auto simp: silenced_no_print)
qed

theorem main_silence_witness:
  "strncmp (to_cbuf ''-s'') (to_cbuf ''-s'') 2 = 0
   \<and> strncmp (to_cbuf ''set'') (to_cbuf ''-s'') 2 \<noteq> 0
   \<and> strcmp (to_cbuf ''set'') (to_cbuf ''view'') \<noteq> 0
   \<and> main env0 [''PmLogCtl'', ''-s'', ''set'', ''network*'', ''info'']
       = map_sum id (map_prod id silenced) (main env0 [''PmLogCtl'', ''set'', ''network*'', ''info''])
   \<and> main env0 [''PmLogCtl'', ''-s'', ''set'', ''network*'', ''info'']
       = Inr (EXIT_SUCCESS,
              [Call_PmLogSetContextLevel (Some 3) 6, Call_PmLogSetContextLevel (Some 2) 6])"
proof -
  have a: "strncmp (to_cbuf ''-s'') (to_cbuf ''-s'') 2 = 0"
    by code_simp
  have b: "strncmp (to_cbuf (hd [''set'', ''network*'', ''info''])) (to_cbuf ''-s'') 2 \<noteq> 0"
    "strcmp (to_cbuf (hd [''set'', ''network*'', ''info''])) (to_cbuf ''view'') \<noteq> 0"
    by code_simp+
  have c: "main env0 [''PmLogCtl'', ''-s'', ''set'', ''network*'', ''info'']
       = Inr (EXIT_SUCCESS,
              [Call_PmLogSetContextLevel (Some 3) 6, Call_PmLogSetContextLevel (Some 2) 6])"
    by code_simp
  show ?thesis
    using main_silence[OF a, of "[''set'', ''network*'', ''info'']" env0 "''PmLogCtl''"] a b c
    by simp
qed

text \<open>
  The claim as stated has the error messages printed with \<open>-s\<close> as without. Setting
  the level of a context that does not exist prints two error lines without \<open>-s\<close>
  and nothing with it.
\<close>

theorem main_silence_counterexample:
  "main env0 [''PmLogCtl'', ''set'', ''nosuch'', ''info'']
     = Inr (EXIT_FAILURE,
            [Stderr ''PmLogCtl: Context 'nosuch' not found.\<newline>'',
             Stderr ''PmLogCtl: Use -help for usage information.\<newline>''])
   \<and> main env0 [''PmLogCtl'', ''-s'', ''set'', ''nosuch'', ''info''] = Inr (EXIT_FAILURE, [])"
  by code_simp

section \<open>The command \<open>def\<close>\<close>

lemma DoCmdDef_existing:
  assumes "fst (PmLogFindContext env (PrvResolveContextNameAlias nm)) = kPmLogErr_None"
  shows "DoCmdDef env flag_silence (cmd # nm # rest)
         = (RESULT_OK,
            ErrPrint flag_silence
              (''Context '' @ quoted (PrvResolveContextNameAlias nm)
                 @ '' is already defined.\<newline>''))"
proof -
  obtain e c where f: "PmLogFindContext env (PrvResolveContextNameAlias nm) = (e, c)"
    by (cases "PmLogFindContext env (PrvResolveContextNameAlias nm)")
  then have "e = kPmLogErr_None" using assms by simp
  then show ?thesis
    using f by (simp add: DoCmdDef_def Let_def)
qed

text \<open>
  Claim C8 has \<open>def\<close> fail for a context that exists. The code prints "Context '...'
  is already defined." and returns \<open>RESULT_OK\<close>, so that the process exits with
  \<open>EXIT_SUCCESS\<close>: here for the context \<open>ui\<close> of the example registry.
\<close>

theorem DoCmdDef_existing_returns_ok:
  "DoCmdDef env0 False [''def'', ''ui'']
     = (RESULT_OK, [Stderr ''PmLogCtl: Context 'ui' is already defined.\<newline>''])
   \<and> main env0 [''PmLogCtl'', ''def'', ''ui'']
     = Inr (EXIT_SUCCESS, [Stderr ''PmLogCtl: Context 'ui' is already defined.\<newline>''])"
  by code_simp

section \<open>The command \<open>logkv\<close>\<close>


lemma length_buf_of [simp]: "length s \<le> kvPair_size \<Longrightarrow> length (buf_of s) = kvPair_size"
  by (simp add: buf_of_def)




















lemma kv_exit:
  assumes "p < length argv"
    and "DoCmdLogKV_kv flag_silence argv p arg kv idx res out = Inr (Inr (p', a', kv', out'))"
  shows "p' = length argv - 1"
  using assms
proof (induction "length argv - p" arbitrary: p arg kv idx res out)
  case 0
  then show ?case by simp
next
  case (Suc k)
  show ?case
  proof (cases "p + 1 = length argv")
    case True
    then show ?thesis
      using Suc.prems(2) by (auto simp: DoCmdLogKV_kv_last split: if_splits sum.splits)
  next
    case False
    then have n: "p + 1 < length argv" using Suc.prems(1) by simp
    have k: "k = length argv - (p + 1)" using Suc.hyps(2) by simp
    obtain r where r: "kv_item (p = length argv - 2) arg kv idx = Inr r"
      using Suc.prems(2) by (cases "kv_item (p = length argv - 2) arg kv idx")
        (auto simp: DoCmdLogKV_kv_item[OF n])
    obtain ok kv1 idx1 where r1: "r = (ok, kv1, idx1)" by (cases r) auto
    define out1 where "out1 = (if ok then out
                      else out @ ErrPrint flag_silence
                                   (''key and value pair is wrong : '' @ arg @ ''\<newline>''))"
    have "DoCmdLogKV_kv flag_silence argv (p + 1) (argv ! (p + 1)) kv1 idx1 (res \<or> ok) out1
            = Inr (Inr (p', a', kv', out'))"
      using Suc.prems(2)
      by (simp add: DoCmdLogKV_kv_item[OF n] r r1 Let_def out1_def split: if_splits)
    then show ?thesis
      using Suc.hyps(1)[OF k n] by blast
  qed
qed

lemma kv_indep:
  assumes "p \<le> length pre" and "4 \<le> p"
  shows "map_sum id (map_sum id (\<lambda>(p, a, k, ev). (k, ev)))
           (DoCmdLogKV_kv flag_silence (pre @ [x]) p ((pre @ [x]) ! p) kv idx res out)
       = map_sum id (map_sum id (\<lambda>(p, a, k, ev). (k, ev)))
           (DoCmdLogKV_kv flag_silence (pre @ [y]) p ((pre @ [y]) ! p) kv idx res out)"
  using assms
proof (induction "length pre - p" arbitrary: p kv idx res out)
  case 0
  then have p: "p = length pre" by simp
  then have l: "p + 1 = length (pre @ [x])" "p + 1 = length (pre @ [y])" by simp_all
  show ?case
    by (simp add: DoCmdLogKV_kv_last[OF l(1)] DoCmdLogKV_kv_last[OF l(2)] split: sum.splits)
next
  case (Suc k)
  then have lt: "p < length pre" by simp
  then have n: "p + 1 < length (pre @ [x])" "p + 1 < length (pre @ [y])" by simp_all
  have k: "k = length pre - (p + 1)" using Suc.hyps(2) by simp
  have arg: "(pre @ [x]) ! p = pre ! p" "(pre @ [y]) ! p = pre ! p"
    using lt by (simp_all add: nth_append)
  have IH: "\<And>kv idx res out. map_sum id (map_sum id (\<lambda>(p, a, k, ev). (k, ev)))
           (DoCmdLogKV_kv flag_silence (pre @ [x]) (Suc p) ((pre @ [x]) ! (Suc p)) kv idx res out)
       = map_sum id (map_sum id (\<lambda>(p, a, k, ev). (k, ev)))
           (DoCmdLogKV_kv flag_silence (pre @ [y]) (Suc p) ((pre @ [y]) ! (Suc p)) kv idx res out)"
    using Suc.hyps(1)[OF k] lt Suc.prems(2) by simp
  show ?case
  proof (cases "kv_item (p = length pre - 1) (pre ! p) kv idx")
    case (Inl c)
    then show ?thesis
      by (simp add: DoCmdLogKV_kv_item[OF n(1)] DoCmdLogKV_kv_item[OF n(2)] arg)
  next
    case (Inr r)
    obtain ok kv1 idx1 where r1: "r = (ok, kv1, idx1)" by (cases r) auto
    show ?thesis
      using IH Inr
      by (simp add: DoCmdLogKV_kv_item[OF n(1)] DoCmdLogKV_kv_item[OF n(2)] arg r1 Let_def)
  qed
qed

lemma DoCmdLogKV_args_ok:
  assumes "PmLogFindContext env (PrvResolveContextNameAlias ctx) = (kPmLogErr_None, c)"
    and "PmLogStringToLevel env lvl = Some level"
    and "level \<noteq> - 1" and "level \<noteq> kPmLogLevel_Debug"
    and "argv = cmd # ctx # lvl # mid # rest" and "rest \<noteq> []"
  shows "DoCmdLogKV env flag_silence argv
         = (case DoCmdLogKV_kv flag_silence argv 4 (argv ! 4) (replicate kvPair_size NUL) 0 False [] of
              Inl cr \<Rightarrow> Inl cr
            | Inr (Inl r) \<Rightarrow> Inr r
            | Inr (Inr (p', a', kv', out')) \<Rightarrow>
                Inr (logkv_emit env flag_silence c level (Some mid)
                       (Some (cstr (kv'[kvPair_size - 1 := NUL]))) (Some (last argv)) out'))"
proof -
  define cn where "cn = Some (PrvResolveContextNameAlias ctx)"
  define kv0 where "kv0 = replicate kvPair_size NUL"
  have len: "4 < length argv" using assms(5,6) by (cases rest) auto
  have a: "argv ! 1 = ctx" "argv ! 2 = lvl" "argv ! 3 = mid" using assms(5) by simp_all
  have kv00: "kv0 ! 0 = NUL" by (simp add: kv0_def kvPair_size_def)
  have l1: "DoCmdLogKV_loop env flag_silence argv (Suc 0) None None None None None kv0 False []
          = DoCmdLogKV_loop env flag_silence argv 2 cn c None None None kv0 False []"
    using len assms(1) a by (subst DoCmdLogKV_loop.simps) (simp add: Let_def cn_def numeral_2_eq_2)
  have l2: "DoCmdLogKV_loop env flag_silence argv 2 cn c None None None kv0 False []
          = DoCmdLogKV_loop env flag_silence argv 3 cn c (Some level) None None kv0 False []"
    using len assms(2,3) a by (subst DoCmdLogKV_loop.simps) (simp add: Let_def cn_def)
  have l3: "DoCmdLogKV_loop env flag_silence argv 3 cn c (Some level) None None kv0 False []
          = DoCmdLogKV_loop env flag_silence argv 4 cn c (Some level) (Some mid) None kv0 False []"
    using len assms(4) a by (subst DoCmdLogKV_loop.simps) (simp add: Let_def cn_def)
  have l4: "DoCmdLogKV_loop env flag_silence argv 4 cn c (Some level) (Some mid) None kv0 False []
          = (case DoCmdLogKV_kv flag_silence argv 4 (argv ! 4) kv0 0 False [] of
               Inl cr \<Rightarrow> Inl cr
             | Inr (Inl r) \<Rightarrow> Inr (Inl r)
             | Inr (Inr (paramIndex, arg, kvPair, out)) \<Rightarrow>
                 DoCmdLogKV_loop env flag_silence argv paramIndex cn c (Some level) (Some mid) None
                   (kvPair[kvPair_size - 1 := NUL]) True out)"
    using len assms(4) kv00 by (subst DoCmdLogKV_loop.simps) (simp add: Let_def cn_def)
  have l5: "DoCmdLogKV_loop env flag_silence argv (length argv - 1) cn c (Some level) (Some mid) None
                   kv1 True out1
          = Inr (Inr (cn, c, Some level, Some mid, Some (last argv), kv1, out1))" for kv1 out1
  proof -
    have ne: "argv \<noteq> []" using len by auto
    have s1: "DoCmdLogKV_loop env flag_silence argv (length argv - 1) cn c (Some level) (Some mid) None
                   kv1 True out1
          = DoCmdLogKV_loop env flag_silence argv (length argv) cn c (Some level) (Some mid)
              (Some (last argv)) kv1 True out1"
      using len ne by (subst DoCmdLogKV_loop.simps) (simp add: Let_def cn_def last_conv_nth)
    show ?thesis
      unfolding s1 by (subst DoCmdLogKV_loop.simps) simp
  qed
  have cnn: "cn \<noteq> None" by (simp add: cn_def)
  have run: "DoCmdLogKV_loop env flag_silence argv (Suc 0) None None None None None kv0 False []
          = (case DoCmdLogKV_kv flag_silence argv 4 (argv ! 4) kv0 0 False [] of
               Inl cr \<Rightarrow> Inl cr
             | Inr (Inl r) \<Rightarrow> Inr (Inl r)
             | Inr (Inr (paramIndex, arg, kvPair, out)) \<Rightarrow>
                 Inr (Inr (cn, c, Some level, Some mid, Some (last argv),
                           kvPair[kvPair_size - 1 := NUL], out)))"
  proof (cases "DoCmdLogKV_kv flag_silence argv 4 (argv ! 4) kv0 0 False []")
    case (Inl cr)
    then show ?thesis by (simp only: l1 l2 l3 l4 sum.case)
  next
    case (Inr r)
    note r = Inr
    show ?thesis
    proof (cases r)
      case (Inl ret)
      then show ?thesis using r by (simp only: l1 l2 l3 l4 sum.case)
    next
      case (Inr st)
      obtain p' a' kv' out' where st: "st = (p', a', kv', out')" by (cases st) auto
      have p': "p' = length argv - 1"
        using kv_exit[OF len] r Inr st by blast
      show ?thesis
        using r Inr st by (simp only: l1 l2 l3 l4 sum.case prod.case p' l5)
    qed
  qed
  have d: "DoCmdLogKV env flag_silence argv
         = (case DoCmdLogKV_loop env flag_silence argv (Suc 0) None None None None None kv0 False [] of
           Inl c \<Rightarrow> Inl c
         | Inr (Inl r) \<Rightarrow> Inr r
         | Inr (Inr (contextName', context', levelIntP, msgID, msg, kvPair, out)) \<Rightarrow>
             Inr (logkv_finish env flag_silence contextName' context' levelIntP msgID msg kvPair out))"
    using len
    by (cases "DoCmdLogKV_loop env flag_silence argv (Suc 0) None None None None None kv0 False []")
       (auto simp: DoCmdLogKV_def kv0_def logkv_finish_def Let_def split: sum.splits option.splits)
  show ?thesis
    unfolding d run kv0_def[symmetric]
    using cnn assms(4)
    by (cases "DoCmdLogKV_kv flag_silence argv 4 (argv ! 4) kv0 0 False []")
       (auto simp: logkv_finish_def logkv_emit_def Let_def split: sum.splits)
qed

section \<open>The payload of a run whose tokens all parse\<close>






section \<open>The structured message of \<open>logkv\<close>\<close>

lemma kv_case_proj:
  "(case R of Inl cr \<Rightarrow> Inl cr | Inr (Inl r) \<Rightarrow> Inr r
    | Inr (Inr (p', a', kv', out')) \<Rightarrow> Inr (g (cstr (kv'[kvPair_size - 1 := NUL])) out'))
   = (case map_sum id (map_sum id (\<lambda>(p, a, k, ev). (k, ev))) R of
        Inl cr \<Rightarrow> Inl cr | Inr (Inl r) \<Rightarrow> Inr r
      | Inr (Inr (k, ev)) \<Rightarrow> Inr (g (cstr (k[kvPair_size - 1 := NUL])) ev))"
proof (cases R)
  case (Inl cr)
  then show ?thesis by simp
next
  case (Inr x)
  then show ?thesis by (cases x) auto
qed

lemma kv_payload_proj:
  "(case map_sum id (map_sum id (\<lambda>(p, a, k, ev). (cstr (k[kvPair_size - 1 := NUL]), ev))) R of
      Inl cr \<Rightarrow> Inl cr | Inr (Inl r) \<Rightarrow> Inr r
    | Inr (Inr (payload, ev)) \<Rightarrow> Inr (g payload ev))
   = (case map_sum id (map_sum id (\<lambda>(p, a, k, ev). (k, ev))) R of
        Inl cr \<Rightarrow> Inl cr | Inr (Inl r) \<Rightarrow> Inr r
      | Inr (Inr (k, ev)) \<Rightarrow> Inr (g (cstr (k[kvPair_size - 1 := NUL])) ev))"
proof (cases R)
  case (Inl cr)
  then show ?thesis by simp
next
  case (Inr x)
  then show ?thesis by (cases x) auto
qed

lemma kv_of_proj:
  "(case kv_of flag_silence args of Inl cr \<Rightarrow> Inl cr | Inr (Inl r) \<Rightarrow> Inr r
    | Inr (Inr (payload, ev)) \<Rightarrow> Inr (g payload ev))
   = (case map_sum id (map_sum id (\<lambda>(p, a, k, ev). (k, ev)))
             (DoCmdLogKV_kv flag_silence (args @ [[]]) 4 ((args @ [[]]) ! 4)
                (replicate kvPair_size NUL) 0 False []) of
        Inl cr \<Rightarrow> Inl cr | Inr (Inl r) \<Rightarrow> Inr r
      | Inr (Inr (k, ev)) \<Rightarrow> Inr (g (cstr (k[kvPair_size - 1 := NUL])) ev))"
  unfolding kv_of_def by (rule kv_payload_proj)




text \<open>
  Claim C3 has every token without \<open>=\<close> abort the encoding, with no payload and no
  record. The code returns \<open>RESULT_PARAM_ERR\<close> only while no earlier token has parsed:
  the local \<open>result\<close> is never reset. With the example registry, \<open>badtoken\<close> as
  the first token aborts, and \<open>badtoken\<close> after \<open>a=1\<close> is reported and then skipped:
  \<open>PmLogString\<close> is called with the unfinished payload {"a":1, and the command returns
  \<open>RESULT_OK\<close>.
\<close>

theorem DoCmdLogKV_bad_token_after_good:
  \<open>DoCmdLogKV env0 False [''logkv'', ''ui'', ''info'', ''ID'', ''badtoken'', ''hello'']
     = Inr (RESULT_PARAM_ERR,
            [Stderr ''PmLogCtl: key and value pair is wrong : badtoken\<newline>''])
   \<and> DoCmdLogKV env0 False [''logkv'', ''ui'', ''info'', ''ID'', ''a=1'', ''badtoken'', ''hello'']
     = Inr (RESULT_OK,
            [Stderr ''PmLogCtl: key and value pair is wrong : badtoken\<newline>'',
             Call_PmLogString (Some 1) 6 (Some ''ID'') (Some ''{"a":1,'') (Some ''hello'')])\<close>
  by code_simp

text \<open>
  Claim C10. When the context is found and the level is valid and is not the debug
  level, the run of \<open>logkv\<close> on a message ID, any arguments \<open>tokens\<close> and a final
  argument is determined as follows: the key/value part \<open>kv_of\<close> is computed from the
  arguments before the final one alone, and when it yields a payload,
  \<open>PmLogString\<close> is called with this payload and with the final argument as the
  message, whatever the form of that argument.
\<close>

theorem DoCmdLogKV_last_is_message:
  assumes "PmLogFindContext env (PrvResolveContextNameAlias ctx) = (kPmLogErr_None, c)"
    and "PmLogStringToLevel env lvl = Some level"
    and "level \<noteq> - 1" and "level \<noteq> kPmLogLevel_Debug"
  shows "DoCmdLogKV env flag_silence (cmd # ctx # lvl # mid # tokens @ [final])
         = (case kv_of flag_silence (cmd # ctx # lvl # mid # tokens) of
              Inl cr \<Rightarrow> Inl cr
            | Inr (Inl r) \<Rightarrow> Inr r
            | Inr (Inr (payload, out)) \<Rightarrow>
                Inr (logkv_emit env flag_silence c level (Some mid) (Some payload)
                       (Some final) out))"
proof -
  define pre where "pre = cmd # ctx # lvl # mid # tokens"
  have argv: "cmd # ctx # lvl # mid # tokens @ [final] = pre @ [final]"
    by (simp add: pre_def)
  have lst: "last (pre @ [final]) = final" by simp
  have len: "4 \<le> length pre" by (simp add: pre_def)
  have "DoCmdLogKV env flag_silence (pre @ [final])
         = (case DoCmdLogKV_kv flag_silence (pre @ [final]) 4 ((pre @ [final]) ! 4)
                  (replicate kvPair_size NUL) 0 False [] of
              Inl cr \<Rightarrow> Inl cr
            | Inr (Inl r) \<Rightarrow> Inr r
            | Inr (Inr (p', a', kv', out')) \<Rightarrow>
                Inr (logkv_emit env flag_silence c level (Some mid)
                       (Some (cstr (kv'[kvPair_size - 1 := NUL]))) (Some final) out'))"
    using DoCmdLogKV_args_ok[OF assms(1-4), of "pre @ [final]" cmd mid "tokens @ [final]" flag_silence]
    unfolding lst by (simp add: pre_def)
  also have "\<dots> = (case map_sum id (map_sum id (\<lambda>(p, a, k, ev). (k, ev)))
                      (DoCmdLogKV_kv flag_silence (pre @ [final]) 4 ((pre @ [final]) ! 4)
                         (replicate kvPair_size NUL) 0 False []) of
              Inl cr \<Rightarrow> Inl cr
            | Inr (Inl r) \<Rightarrow> Inr r
            | Inr (Inr (k, ev)) \<Rightarrow>
                Inr (logkv_emit env flag_silence c level (Some mid)
                       (Some (cstr (k[kvPair_size - 1 := NUL]))) (Some final) ev))"
    by (rule kv_case_proj[where g = "\<lambda>s ev. logkv_emit env flag_silence c level (Some mid) (Some s) (Some final) ev"])
  also have "\<dots> = (case map_sum id (map_sum id (\<lambda>(p, a, k, ev). (k, ev)))
                      (DoCmdLogKV_kv flag_silence (pre @ [[]]) 4 ((pre @ [[]]) ! 4)
                         (replicate kvPair_size NUL) 0 False []) of
              Inl cr \<Rightarrow> Inl cr
            | Inr (Inl r) \<Rightarrow> Inr r
            | Inr (Inr (k, ev)) \<Rightarrow>
                Inr (logkv_emit env flag_silence c level (Some mid)
                       (Some (cstr (k[kvPair_size - 1 := NUL]))) (Some final) ev))"
    by (simp only: kv_indep[OF len order_refl, of flag_silence final _ _ _ _ "[]"])
  also have "\<dots> = (case kv_of flag_silence pre of
              Inl cr \<Rightarrow> Inl cr
            | Inr (Inl r) \<Rightarrow> Inr r
            | Inr (Inr (payload, out)) \<Rightarrow>
                Inr (logkv_emit env flag_silence c level (Some mid) (Some payload)
                       (Some final) out))"
    by (rule kv_of_proj[where g = "\<lambda>s ev. logkv_emit env flag_silence c level (Some mid) (Some s) (Some final) ev", symmetric])
  finally show ?thesis unfolding argv pre_def[symmetric] .
qed

text \<open>
  Two runs whose final argument is \<open>k=v\<close>: after the token \<open>a=1\<close> the payload is
  {"a":1}, after no token it is \<open>{}\<close>, and \<open>k=v\<close> is the message of both.
\<close>

theorem DoCmdLogKV_last_is_message_witness:
  \<open>DoCmdLogKV env0 False [''logkv'', ''ui'', ''info'', ''ID'', ''a=1'', ''k=v'']
     = Inr (RESULT_OK,
            [Call_PmLogString (Some 1) 6 (Some ''ID'') (Some ''{"a":1}'') (Some ''k=v'')])
   \<and> DoCmdLogKV env0 False [''logkv'', ''ui'', ''info'', ''ID'', ''k=v'']
     = Inr (RESULT_OK,
            [Call_PmLogString (Some 1) 6 (Some ''ID'') (Some ''{}'') (Some ''k=v'')])\<close>
proof -
  have h1: "PmLogFindContext env0 (PrvResolveContextNameAlias ''ui'') = (kPmLogErr_None, Some 1)"
    by code_simp
  have h2: "PmLogStringToLevel env0 ''info'' = Some 6" by code_simp
  have h3: "(6 :: int) \<noteq> - 1" by simp
  have h4: "6 \<noteq> kPmLogLevel_Debug" by code_simp
  have k1: \<open>kv_of False [''logkv'', ''ui'', ''info'', ''ID'', ''a=1''] = Inr (Inr (''{"a":1}'', []))\<close>
    by code_simp
  have k2: \<open>kv_of False [''logkv'', ''ui'', ''info'', ''ID''] = Inr (Inr (''{}'', []))\<close>
    by code_simp
  have e1: \<open>logkv_emit env0 False (Some 1) 6 (Some ''ID'') (Some ''{"a":1}'') (Some ''k=v'') []
           = (RESULT_OK,
            [Call_PmLogString (Some 1) 6 (Some ''ID'') (Some ''{"a":1}'') (Some ''k=v'')])\<close>
    by code_simp
  have e2: \<open>logkv_emit env0 False (Some 1) 6 (Some ''ID'') (Some ''{}'') (Some ''k=v'') []
           = (RESULT_OK,
            [Call_PmLogString (Some 1) 6 (Some ''ID'') (Some ''{}'') (Some ''k=v'')])\<close>
    by code_simp
  from DoCmdLogKV_last_is_message[OF h1 h2 h3 h4, of False "''logkv''" "''ID''" "[''a=1'']" "''k=v''"]
       DoCmdLogKV_last_is_message[OF h1 h2 h3 h4, of False "''logkv''" "''ID''" "[]" "''k=v''"]
  show ?thesis using k1 k2 e1 e2 by simp
qed

end
